theory Spec2Isabelle
  imports Complex_Main "HOL-Library.Sublist"
begin

section \<open>The embedding of train_lafm_net.py\<close>

text \<open>
  The masking module and the correlation filter are read in floating point: float32 for
  the tensors of the module, float64 for the correlation matrix, every operation rounded
  to nearest with ties to even, with overflow to infinity, gradual underflow, signed
  zeros and \<open>nan\<close>. Everywhere else tensors hold real numbers and the arithmetic of the
  source is read over the reals; there, where the source would produce \<open>nan\<close> (the mean
  of an empty tensor) the model returns \<open>None\<close>. Where the source raises, the model
  returns \<open>Inl\<close> of the exception.
\<close>

datatype error = ValueError | IndexError | RuntimeError

type_synonym addr = nat
type_synonym tensor = "real list"


subsection \<open>Floating point: \<open>torch.float32\<close> and \<open>numpy.float64\<close>\<close>

text \<open>
  A format is given by the number of stored mantissa bits and the largest exponent:
  23 and 127 for float32, 52 and 1023 for float64.
\<close>

record format =
  mant :: nat
  emax :: int

definition binary32 :: format where
  "binary32 = \<lparr>mant = 23, emax = 127\<rparr>"


text \<open>
  A value is finite, with its sign (\<open>True\<close> for negative) and its magnitude, so that
  both zeros exist; or an infinity with its sign; or \<open>nan\<close>.
\<close>

datatype fp = Finite bool real | Infinite bool | NaN

definition val :: "bool \<Rightarrow> real \<Rightarrow> real" where
  "val s m = (if s then - m else m)"

text \<open>
  Rounding a positive real to the format. The spacing of representable numbers around
  \<open>m\<close> is two to the exponent of \<open>m\<close> (not below the smallest normal exponent) minus the
  mantissa length; \<open>m\<close> goes to the nearest multiple of it, to the even one of two equally
  near. A result that reaches two to \<open>emax + 1\<close> has left the format: \<open>None\<close>, which
  the operations turn into an infinity.
\<close>

definition nearest_even :: "real \<Rightarrow> int" where
  "nearest_even y =
     (let f = \<lfloor>y\<rfloor>; r = y - of_int f
      in if r < 1 / 2 then f else if 1 / 2 < r then f + 1 else if even f then f else f + 1)"

definition quantum :: "format \<Rightarrow> real \<Rightarrow> real" where
  "quantum fmt m = 2 powi (max \<lfloor>log 2 m\<rfloor> (1 - emax fmt) - int (mant fmt))"

definition round_mag :: "format \<Rightarrow> real \<Rightarrow> real option" where
  "round_mag fmt m =
     (if m = 0 then Some 0
      else
        let v = of_int (nearest_even (m / quantum fmt m)) * quantum fmt m
        in if 2 powi (emax fmt + 1) \<le> v then None else Some v)"

definition fp_round :: "format \<Rightarrow> bool \<Rightarrow> real \<Rightarrow> fp" where
  "fp_round fmt s m = (case round_mag fmt m of None \<Rightarrow> Infinite s | Some v \<Rightarrow> Finite s v)"

text \<open>
  The operations: the exact result, rounded. Special values as IEEE 754 has them: an
  operation on \<open>nan\<close> gives \<open>nan\<close>, as do zero times infinity, infinity minus infinity,
  zero over zero and infinity over infinity; a non-zero number over zero is an infinity;
  an exact zero sum is negative only when both summands are. \<open>exp\<close> and \<open>sqrt\<close> are
  taken as correctly rounded.
\<close>

fun fneg :: "fp \<Rightarrow> fp" where
  "fneg (Finite s m) = Finite (\<not> s) m"
| "fneg (Infinite s) = Infinite (\<not> s)"
| "fneg NaN = NaN"


fun fmul :: "format \<Rightarrow> fp \<Rightarrow> fp \<Rightarrow> fp" where
  "fmul fmt NaN b = NaN"
| "fmul fmt a NaN = NaN"
| "fmul fmt (Infinite s) (Infinite t) = Infinite (s \<noteq> t)"
| "fmul fmt (Infinite s) (Finite t n) = (if n = 0 then NaN else Infinite (s \<noteq> t))"
| "fmul fmt (Finite s m) (Infinite t) = (if m = 0 then NaN else Infinite (s \<noteq> t))"
| "fmul fmt (Finite s m) (Finite t n) = fp_round fmt (s \<noteq> t) (m * n)"

fun fdiv :: "format \<Rightarrow> fp \<Rightarrow> fp \<Rightarrow> fp" where
  "fdiv fmt NaN b = NaN"
| "fdiv fmt a NaN = NaN"
| "fdiv fmt (Infinite s) (Infinite t) = NaN"
| "fdiv fmt (Infinite s) (Finite t n) = Infinite (s \<noteq> t)"
| "fdiv fmt (Finite s m) (Infinite t) = Finite (s \<noteq> t) 0"
| "fdiv fmt (Finite s m) (Finite t n) =
     (if n = 0 then (if m = 0 then NaN else Infinite (s \<noteq> t))
      else fp_round fmt (s \<noteq> t) (m / n))"

fun fadd :: "format \<Rightarrow> fp \<Rightarrow> fp \<Rightarrow> fp" where
  "fadd fmt NaN b = NaN"
| "fadd fmt a NaN = NaN"
| "fadd fmt (Infinite s) (Infinite t) = (if s = t then Infinite s else NaN)"
| "fadd fmt (Infinite s) (Finite t n) = Infinite s"
| "fadd fmt (Finite s m) (Infinite t) = Infinite t"
| "fadd fmt (Finite s m) (Finite t n) =
     (let v = val s m + val t n
      in if v = 0 then Finite (s \<and> t) 0 else fp_round fmt (v < 0) \<bar>v\<bar>)"


fun fexp :: "format \<Rightarrow> fp \<Rightarrow> fp" where
  "fexp fmt NaN = NaN"
| "fexp fmt (Infinite s) = (if s then Finite False 0 else Infinite False)"
| "fexp fmt (Finite s m) = fp_round fmt False (exp (val s m))"



fun fp_nonzero :: "fp \<Rightarrow> bool" where
  "fp_nonzero (Finite s m) = (m \<noteq> 0)"
| "fp_nonzero a = True"

text \<open>\<open>np.isfinite\<close>.\<close>

definition is_finite :: "fp \<Rightarrow> bool" where
  "is_finite v = (case v of Finite s m \<Rightarrow> True | Infinite s \<Rightarrow> False | NaN \<Rightarrow> False)"

definition fp_one :: fp where
  "fp_one = Finite False 1"

text \<open>A sum accumulated from the left, starting from zero.\<close>

definition fsum :: "format \<Rightarrow> fp list \<Rightarrow> fp" where
  "fsum fmt xs = foldl (fadd fmt) (Finite False 0) xs"

text \<open>The closed unit interval: a finite, non-negative number that is at most 1.\<close>

definition in_unit :: "fp \<Rightarrow> bool" where
  "in_unit v = (case v of Finite s m \<Rightarrow> \<not> s \<and> 0 \<le> m \<and> m \<le> 1 | Infinite s \<Rightarrow> False | NaN \<Rightarrow> False)"

text \<open>
  The open unit interval, by the value of the number; and the value a Python float
  literal denotes, the decimal rounded to float64.
\<close>

definition open_unit :: "fp \<Rightarrow> bool" where
  "open_unit v = (case v of Finite s m \<Rightarrow> 0 < val s m \<and> val s m < 1 | Infinite s \<Rightarrow> False | NaN \<Rightarrow> False)"



subsection \<open>\<open>LearnableAdaptiveMasking\<close> (lines 33-54)\<close>

text \<open>
  A batch is a list of images, an image a list of channel planes, a plane a list of rows
  of float32 numbers. The module's parameters: \<open>temperature\<close> (one number), \<open>bias\<close>
  (one per channel), \<open>channel_scale\<close> (shape channels x 1 x 1, one per channel) and the
  weight and bias of the \<open>nn.Linear\<close> inside \<open>global_fc\<close>.
\<close>

type_synonym plane = "fp list list"
type_synonym image = "plane list"
type_synonym batch = "image list"

record LearnableAdaptiveMasking =
  temperature :: fp
  bias :: "fp list"
  channel_scale :: "fp list"
  fc_weight :: "fp list list"
  fc_bias :: "fp list"

text \<open>\<open>__init__\<close>: ones, zeros, ones; the linear layer starts from whatever it is given.\<close>

definition init_masker :: "nat \<Rightarrow> fp list list \<Rightarrow> fp list \<Rightarrow> LearnableAdaptiveMasking" where
  "init_masker n w b =
     \<lparr>temperature = fp_one, bias = replicate n (Finite False 0), channel_scale = replicate n fp_one,
      fc_weight = w, fc_bias = b\<rparr>"

text \<open>\<open>torch.sigmoid\<close> and \<open>nn.Sigmoid\<close> on float32: one over one plus \<open>exp(-z)\<close>.\<close>

definition sigmoid :: "fp \<Rightarrow> fp" where
  "sigmoid z = fdiv binary32 fp_one (fadd binary32 fp_one (fexp binary32 (fneg z)))"

text \<open>
  \<open>nn.AdaptiveAvgPool2d(1)\<close> followed by \<open>nn.Flatten()\<close>: the mean of each plane, its sum
  over its number of entries.
\<close>

definition adaptive_avg_pool :: "image \<Rightarrow> fp list" where
  "adaptive_avg_pool img =
     map (\<lambda>plane. fdiv binary32 (fsum binary32 (concat plane))
                    (fp_round binary32 False (real (length (concat plane))))) img"

text \<open>\<open>nn.Linear\<close>: one output per weight row, the row times the input plus the bias.\<close>

definition fc_linear :: "fp list list \<Rightarrow> fp list \<Rightarrow> fp list \<Rightarrow> fp list" where
  "fc_linear weight b v =
     map (\<lambda>(row, b_k). fadd binary32 (fsum binary32 (map (\<lambda>(w, x). fmul binary32 w x) (zip row v))) b_k)
       (zip weight b)"

definition global_fc :: "LearnableAdaptiveMasking \<Rightarrow> image \<Rightarrow> fp list" where
  "global_fc self img =
     map sigmoid (fc_linear (fc_weight self) (fc_bias self) (adaptive_avg_pool img))"

text \<open>
  \<open>forward\<close> on one image of the batch: \<open>scaled\<close>, \<open>base_mask\<close>, \<open>g\<close> and their product,
  the per-channel parameters broadcast over the plane. The division by \<open>temperature\<close> is
  the floating-point one: by a zero temperature it gives an infinity, or \<open>nan\<close> where
  \<open>x * channel_scale + bias\<close> is zero.
\<close>

definition forward_image :: "LearnableAdaptiveMasking \<Rightarrow> image \<Rightarrow> image" where
  "forward_image self img =
     (let scaled = map (\<lambda>(plane, s, b).
                       map (map (\<lambda>v. fdiv binary32 (fadd binary32 (fmul binary32 v s) b)
                                        (temperature self))) plane)
                     (zip img (zip (channel_scale self) (bias self)));
          base_mask = map (map (map sigmoid)) scaled;
          g = global_fc self img
      in map (\<lambda>(plane, g_c). map (map (\<lambda>v. fmul binary32 v g_c)) plane) (zip base_mask g))"

definition masker_channels :: "LearnableAdaptiveMasking \<Rightarrow> nat" where
  "masker_channels self = length (bias self)"

text \<open>
  \<open>forward\<close>: an input whose channel count is not the module's makes the broadcast (or the
  linear layer) raise.
\<close>

definition forward :: "LearnableAdaptiveMasking \<Rightarrow> batch \<Rightarrow> error + batch" where
  "forward self x =
     (if list_ex (\<lambda>img. length img \<noteq> masker_channels self) x then Inl RuntimeError
      else Inr (map (forward_image self) x))"

text \<open>Shapes: the parameters of a module built for \<open>n\<close> channels, a batch of n x h x w images.\<close>

definition masker_shaped :: "LearnableAdaptiveMasking \<Rightarrow> nat \<Rightarrow> bool" where
  "masker_shaped self n \<longleftrightarrow>
     length (bias self) = n \<and> length (channel_scale self) = n
     \<and> length (fc_weight self) = n \<and> list_all (\<lambda>row. length row = n) (fc_weight self)
     \<and> length (fc_bias self) = n"

definition batch_shaped :: "batch \<Rightarrow> nat \<Rightarrow> nat \<Rightarrow> nat \<Rightarrow> bool" where
  "batch_shaped x n h w \<longleftrightarrow>
     list_all (\<lambda>img. length img = n
        \<and> list_all (\<lambda>plane. length plane = h \<and> list_all (\<lambda>row. length row = w) plane) img) x"

subsection \<open>\<open>consolidate_labels\<close> (lines 116-146)\<close>

text \<open>
  Labels are byte strings. \<open>str.lower()\<close> is modelled on the ASCII letters, which is
  where all eleven keywords of the source live; every other character is kept. (Outside
  ASCII, lower-casing yields an ASCII letter only for the Kelvin sign, a \<open>k\<close>, and for the
  dotted capital I, an \<open>i\<close> followed by a combining dot: no keyword contains a \<open>k\<close> or
  ends in \<open>i\<close>, so neither can complete a keyword.)
\<close>

definition lower_char :: "char \<Rightarrow> char" where
  "lower_char c =
     (case map_of (zip ''ABCDEFGHIJKLMNOPQRSTUVWXYZ'' ''abcdefghijklmnopqrstuvwxyz'') c of
        Some l \<Rightarrow> l
      | None \<Rightarrow> c)"

definition str_lower :: "string \<Rightarrow> string" where
  "str_lower s = map lower_char s"

text \<open>Python's \<open>needle in haystack\<close> on strings: a contiguous occurrence.\<close>

fun str_in :: "string \<Rightarrow> string \<Rightarrow> bool" where
  "str_in n [] = (n = [])"
| "str_in n (c # cs) = (prefix n (c # cs) \<or> str_in n cs)"

text \<open>\<open>any(x in label_lower for x in keys)\<close>.\<close>

definition any_in :: "string list \<Rightarrow> string \<Rightarrow> bool" where
  "any_in keys s = list_ex (\<lambda>x. str_in x s) keys"

text \<open>The body of the \<open>for label in labels\<close> loop: the value appended for one label.\<close>

definition consolidate_label :: "string \<Rightarrow> string" where
  "consolidate_label label =
     (let label_lower = str_lower label in
      if str_in ''benign'' label_lower then ''Benign''
      else if str_in ''ddos'' label_lower then ''DDoS''
      else if str_in ''dos'' label_lower then ''DoS''
      else if str_in ''bot'' label_lower then ''Botnet''
      else if str_in ''infil'' label_lower then ''Infiltration''
      else if any_in [''brute'', ''bruteforce'', ''ssh'', ''ftp'', ''web'', ''xss'', ''sql'']
                label_lower
        then ''Brute Force''
      else ''Brute Force'')"

text \<open>The loop itself: \<open>consolidated\<close> starts empty and grows by one entry per label.\<close>

fun consolidate_loop :: "string list \<Rightarrow> string list \<Rightarrow> string list" where
  "consolidate_loop consolidated [] = consolidated"
| "consolidate_loop consolidated (label # labels) =
     consolidate_loop (consolidated @ [consolidate_label label]) labels"

definition consolidate_labels :: "string list \<Rightarrow> string list" where
  "consolidate_labels labels = consolidate_loop [] labels"

text \<open>
  The specification's wording of the same function, kept apart from the code above to be
  compared with it: case-insensitive substring rules in the priority order benign, ddos,
  dos, bot, infil, brute-force family, with Brute Force as the fallback. A rule is a
  keyword list with the class it yields; the first rule with a keyword that occurs in the
  lower-cased label decides.
\<close>

definition six_classes :: "string list" where
  "six_classes = [''Benign'', ''DoS'', ''DDoS'', ''Botnet'', ''Infiltration'', ''Brute Force'']"

definition priority_rules :: "(string list \<times> string) list" where
  "priority_rules =
     [([''benign''], ''Benign''),
      ([''ddos''], ''DDoS''),
      ([''dos''], ''DoS''),
      ([''bot''], ''Botnet''),
      ([''infil''], ''Infiltration''),
      ([''brute'', ''bruteforce'', ''ssh'', ''ftp'', ''web'', ''xss'', ''sql''], ''Brute Force'')]"

fun first_rule :: "(string list \<times> string) list \<Rightarrow> string \<Rightarrow> string" where
  "first_rule [] s = ''Brute Force''"
| "first_rule ((keys, cls) # rules) s =
     (if list_ex (\<lambda>k. sublist k s) keys then cls else first_rule rules s)"

definition spec_class :: "string \<Rightarrow> string" where
  "spec_class label = first_rule priority_rules (str_lower label)"

subsection \<open>\<open>EarlyStopping\<close> (lines 148-190)\<close>

text \<open>
  A model is seen through \<open>model.state_dict()\<close>: an ordered dictionary from parameter names
  to the tensors the model itself holds, so a state dict is a list of names with the
  addresses of those tensors in a store. Writing a cell of the store changes what every
  state dict pointing at it reads: that is the aliasing \<open>copy.deepcopy\<close> is there to break.
\<close>

record store =
  cells :: "addr \<Rightarrow> tensor option"
  fresh :: addr

type_synonym state_dict = "(string \<times> addr) list"

definition read_state_dict :: "store \<Rightarrow> state_dict \<Rightarrow> (string \<times> tensor option) list" where
  "read_state_dict st sd = map (\<lambda>(name, a). (name, cells st a)) sd"

text \<open>
  \<open>copy.deepcopy\<close> of a state dict: every entry gets a newly allocated tensor holding the
  values of the original at this moment.
\<close>

fun deepcopy :: "state_dict \<Rightarrow> store \<Rightarrow> state_dict \<times> store" where
  "deepcopy [] st = ([], st)"
| "deepcopy ((name, a) # rest) st =
     (let b = fresh st;
          st1 = st\<lparr>cells := (cells st)(b := cells st a), fresh := Suc b\<rparr>;
          (rest', st2) = deepcopy rest st1
      in ((name, b) # rest', st2))"

text \<open>An in-place update of a live tensor, as an optimizer step makes it.\<close>

definition assign :: "addr \<Rightarrow> tensor \<Rightarrow> store \<Rightarrow> store" where
  "assign a t st = st\<lparr>cells := (cells st)(a \<mapsto> t)\<rparr>"

fun mutate :: "(addr \<times> tensor) list \<Rightarrow> store \<Rightarrow> store" where
  "mutate [] st = st"
| "mutate ((a, t) # ws) st = mutate ws (assign a t st)"

text \<open>
  \<open>model.load_state_dict(sd)\<close> (strict): missing keys, unexpected keys or a tensor of
  another size raise; otherwise every parameter of the model is overwritten in place
  with the values stored under its name.
\<close>

definition missing_keys :: "state_dict \<Rightarrow> state_dict \<Rightarrow> string list" where
  "missing_keys model sd = filter (\<lambda>name. name \<notin> set (map fst sd)) (map fst model)"

definition unexpected_keys :: "state_dict \<Rightarrow> state_dict \<Rightarrow> string list" where
  "unexpected_keys model sd = filter (\<lambda>name. name \<notin> set (map fst model)) (map fst sd)"

definition size_mismatch :: "state_dict \<Rightarrow> state_dict \<Rightarrow> store \<Rightarrow> string list" where
  "size_mismatch model sd st =
     map fst (filter (\<lambda>(name, a). case map_of sd name of
                 Some b \<Rightarrow> map_option length (cells st a) \<noteq> map_option length (cells st b)
               | None \<Rightarrow> False) model)"

fun copy_params :: "state_dict \<Rightarrow> state_dict \<Rightarrow> store \<Rightarrow> store" where
  "copy_params [] sd st = st"
| "copy_params ((name, a) # rest) sd st =
     copy_params rest sd
       (case map_of sd name of
          Some b \<Rightarrow> st\<lparr>cells := (cells st)(a := cells st b)\<rparr>
        | None \<Rightarrow> st)"

definition load_state_dict :: "state_dict \<Rightarrow> state_dict \<Rightarrow> store \<Rightarrow> error + store" where
  "load_state_dict model sd st =
     (if missing_keys model sd = [] \<and> unexpected_keys model sd = []
         \<and> size_mismatch model sd st = []
      then Inr (copy_params model sd st)
      else Inl RuntimeError)"

text \<open>
  The fields of the class. \<open>val_loss_min\<close> starts as \<open>np.inf\<close>, here \<open>None\<close>; it is only ever
  printed. \<open>path\<close> is never read and has no field. What \<open>trace_func\<close> prints is collected
  in a list of messages beside the object.
\<close>

datatype trace =
    CounterMsg int int
  | SavingMsg "real option" real
  | LoadedMsg
  | NoWeightsMsg

record EarlyStopping =
  patience :: int
  verbose :: bool
  counter :: int
  best_score :: "real option"
  early_stop :: bool
  val_loss_min :: "real option"
  delta :: real
  best_model_state_dict :: "state_dict option"

text \<open>The object, the store its snapshot lives in, and the printed lines.\<close>

record world =
  es :: EarlyStopping
  heap :: store
  out :: "trace list"

definition init :: "int \<Rightarrow> bool \<Rightarrow> real \<Rightarrow> EarlyStopping" where
  "init p v d =
     \<lparr>patience = p, verbose = v, counter = 0, best_score = None, early_stop = False,
      val_loss_min = None, delta = d, best_model_state_dict = None\<rparr>"

definition trace_func :: "bool \<Rightarrow> trace \<Rightarrow> trace list \<Rightarrow> trace list" where
  "trace_func v msg printed = (if v then printed @ [msg] else printed)"

definition save_checkpoint :: "real \<Rightarrow> state_dict \<Rightarrow> world \<Rightarrow> world" where
  "save_checkpoint val_loss model w =
     (let printed = trace_func (verbose (es w)) (SavingMsg (val_loss_min (es w)) val_loss) (out w);
          (snapshot, h) = deepcopy model (heap w)
      in \<lparr>es = (es w)\<lparr>best_model_state_dict := Some snapshot, val_loss_min := Some val_loss\<rparr>,
          heap = h, out = printed\<rparr>)"

text \<open>\<open>__call__(val_loss, model)\<close>, branch by branch.\<close>

definition call :: "real \<Rightarrow> state_dict \<Rightarrow> world \<Rightarrow> world" where
  "call val_loss model w =
     (let score = - val_loss in
      case best_score (es w) of
        None \<Rightarrow> save_checkpoint val_loss model (w\<lparr>es := (es w)\<lparr>best_score := Some score\<rparr>\<rparr>)
      | Some best \<Rightarrow>
          if score < best + delta (es w) then
            let c = counter (es w) + 1;
                w1 = w\<lparr>es := (es w)\<lparr>counter := c\<rparr>,
                       out := trace_func (verbose (es w)) (CounterMsg c (patience (es w))) (out w)\<rparr>
            in if c \<ge> patience (es w) then w1\<lparr>es := (es w1)\<lparr>early_stop := True\<rparr>\<rparr> else w1
          else
            let w1 = save_checkpoint val_loss model (w\<lparr>es := (es w)\<lparr>best_score := Some score\<rparr>\<rparr>)
            in w1\<lparr>es := (es w1)\<lparr>counter := 0\<rparr>\<rparr>)"

text \<open>One call per epoch, on a sequence of validation losses.\<close>

fun feed :: "real list \<Rightarrow> state_dict \<Rightarrow> world \<Rightarrow> world" where
  "feed [] model w = w"
| "feed (val_loss # rest) model w = feed rest model (call val_loss model w)"

definition load_best_weights :: "state_dict \<Rightarrow> world \<Rightarrow> error + world" where
  "load_best_weights model w =
     (case best_model_state_dict (es w) of
        Some snapshot \<Rightarrow>
          (case load_state_dict model snapshot (heap w) of
             Inl e \<Rightarrow> Inl e
           | Inr h \<Rightarrow> Inr (w\<lparr>heap := h, out := trace_func (verbose (es w)) LoadedMsg (out w)\<rparr>))
      | None \<Rightarrow> Inr (w\<lparr>out := trace_func (verbose (es w)) NoWeightsMsg (out w)\<rparr>))"


subsection \<open>\<open>correlation_filtering\<close> (lines 192-209)\<close>

















subsection \<open>\<open>features_to_multichannel_image\<close> (lines 308-325)\<close>

text \<open>
  \<open>x.reshape((n, n))\<close> raises unless \<open>x\<close> has n * n entries; \<open>np.stack\<close> raises on an empty
  list of arrays. Sizes are natural numbers.
\<close>

definition reshape :: "real list \<Rightarrow> nat \<Rightarrow> error + real list list" where
  "reshape xs n =
     (if length xs = n * n then Inr (map (\<lambda>r. take n (drop (r * n) xs)) [0..<n])
      else Inl ValueError)"

definition np_stack :: "'a list \<Rightarrow> error + 'a list" where
  "np_stack arrays = (if arrays = [] then Inl ValueError else Inr arrays)"

text \<open>The three branches that choose \<open>channel_features\<close> for channel \<open>c\<close>.\<close>

definition channel_features :: "real list \<Rightarrow> nat \<Rightarrow> nat \<Rightarrow> real list" where
  "channel_features feature_vector c features_per_channel =
     (let start_idx = c * features_per_channel;
          end_idx = start_idx + features_per_channel
      in if end_idx \<le> length feature_vector
         then take (end_idx - start_idx) (drop start_idx feature_vector)
         else
           let available = int (length feature_vector) - int start_idx
           in if available > 0
              then drop start_idx feature_vector
                   @ replicate (nat (int features_per_channel - available)) 0
              else replicate features_per_channel 0)"

text \<open>The \<open>for c in range(num_channels)\<close> loop, appending one reshaped channel a round.\<close>

fun channels_loop ::
  "real list \<Rightarrow> nat \<Rightarrow> nat \<Rightarrow> nat list \<Rightarrow> real list list list
   \<Rightarrow> error + real list list list" where
  "channels_loop feature_vector features_per_channel image_size [] channels = Inr channels"
| "channels_loop feature_vector features_per_channel image_size (c # cs) channels =
     (case reshape (channel_features feature_vector c features_per_channel) image_size of
        Inl e \<Rightarrow> Inl e
      | Inr img \<Rightarrow>
          channels_loop feature_vector features_per_channel image_size cs (channels @ [img]))"

definition features_to_multichannel_image ::
  "real list \<Rightarrow> nat \<Rightarrow> nat \<Rightarrow> nat \<Rightarrow> error + real list list list" where
  "features_to_multichannel_image feature_vector num_channels features_per_channel image_size =
     (case channels_loop feature_vector features_per_channel image_size [0..<num_channels] [] of
        Inl e \<Rightarrow> Inl e
      | Inr channels \<Rightarrow> np_stack channels)"

text \<open>Channel-major flattening, and the vector cut or zero-padded to a length.\<close>

definition flatten :: "real list list list \<Rightarrow> real list" where
  "flatten img = concat (map concat img)"

definition zero_padded :: "real list \<Rightarrow> nat \<Rightarrow> real list" where
  "zero_padded feature_vector total_features =
     take total_features feature_vector
     @ replicate (total_features - length feature_vector) 0"

definition square :: "real list \<Rightarrow> nat \<Rightarrow> real list list" where
  "square xs n = map (\<lambda>r. take n (drop (r * n) xs)) [0..<n]"

subsection \<open>\<open>feature_masking_enhancement\<close> (390-397) and the optimizer step (485-505)\<close>

text \<open>
  What decides which parameters an optimizer step moves is the autograd bookkeeping, not
  the numbers. A module is its parameter list and the function it computes. A computed
  tensor carries, beside its data, the leaf parameters its graph reaches: none when it was
  computed under \<open>torch.no_grad()\<close>. \<open>backward\<close> fills \<open>.grad\<close> of exactly those leaves, and
  the optimizer skips every parameter whose \<open>.grad\<close> is \<open>None\<close>. The gradient values and
  the update rule (Adam here) are arbitrary functions.
\<close>

record nn_module =
  parameters :: "addr list"
  compute :: "(addr \<Rightarrow> tensor option) \<Rightarrow> tensor \<Rightarrow> tensor"

record traced =
  data :: tensor
  leaves :: "addr set"

record autograd =
  weights :: "addr \<Rightarrow> tensor option"
  requires_grad :: "addr \<Rightarrow> bool"
  grad :: "addr \<Rightarrow> tensor option"

definition apply_module :: "bool \<Rightarrow> autograd \<Rightarrow> nn_module \<Rightarrow> traced \<Rightarrow> traced" where
  "apply_module grad_enabled st m x =
     \<lparr>data = compute m (weights st) (data x),
      leaves = (if grad_enabled
                then leaves x \<union> {a \<in> set (parameters m). requires_grad st a}
                else {})\<rparr>"

definition multiply :: "bool \<Rightarrow> traced \<Rightarrow> traced \<Rightarrow> traced" where
  "multiply grad_enabled x y =
     \<lparr>data = map (\<lambda>(u, v). u * v) (zip (data x) (data y)),
      leaves = (if grad_enabled then leaves x \<union> leaves y else {})\<rparr>"

definition clamp :: "bool \<Rightarrow> traced \<Rightarrow> real \<Rightarrow> real \<Rightarrow> traced" where
  "clamp grad_enabled x lo hi =
     \<lparr>data = map (\<lambda>v. min (max v lo) hi) (data x),
      leaves = (if grad_enabled then leaves x else {})\<rparr>"

text \<open>
  The body of \<open>feature_masking_enhancement\<close>; the module-level \<open>adaptive_masker\<close> it reads
  is an argument here. All of it runs inside \<open>with torch.no_grad()\<close>.
\<close>

definition feature_masking_enhancement ::
  "autograd \<Rightarrow> nn_module \<Rightarrow> traced \<Rightarrow> nn_module \<Rightarrow> traced" where
  "feature_masking_enhancement st adaptive_masker original_imgs frozen_unet =
     (let grad_enabled = False;
          feats = apply_module grad_enabled st frozen_unet original_imgs;
          mask = apply_module grad_enabled st adaptive_masker feats;
          enhanced = multiply grad_enabled original_imgs mask
      in clamp grad_enabled enhanced 0 1)"

text \<open>
  \<open>opt.zero_grad()\<close>: depending on the library version the gradients of the optimizer's
  parameters are reset to \<open>None\<close> or, where they exist, zeroed in place.
\<close>

definition zero_grad :: "bool \<Rightarrow> addr list \<Rightarrow> autograd \<Rightarrow> autograd" where
  "zero_grad set_to_none params st =
     st\<lparr>grad := (\<lambda>a. if a \<in> set params
                      then (if set_to_none then None else map_option (map (\<lambda>v. 0)) (grad st a))
                      else grad st a)\<rparr>"

definition accumulate :: "tensor option \<Rightarrow> tensor \<Rightarrow> tensor" where
  "accumulate old g = (case old of None \<Rightarrow> g | Some h \<Rightarrow> map (\<lambda>(u, v). u + v) (zip h g))"

text \<open>\<open>loss.backward()\<close>: raises when the loss reaches no parameter that requires grad.\<close>

definition backward :: "(addr \<Rightarrow> tensor) \<Rightarrow> traced \<Rightarrow> autograd \<Rightarrow> error + autograd" where
  "backward gradient loss st =
     (if leaves loss = {} then Inl RuntimeError
      else Inr (st\<lparr>grad := (\<lambda>a. if a \<in> leaves loss
                                 then Some (accumulate (grad st a) (gradient a))
                                 else grad st a)\<rparr>))"

definition opt_step ::
  "(addr \<Rightarrow> tensor \<Rightarrow> tensor \<Rightarrow> tensor) \<Rightarrow> addr list \<Rightarrow> autograd \<Rightarrow> autograd" where
  "opt_step update params st =
     st\<lparr>weights := (\<lambda>a. if a \<in> set params
                         then (case grad st a of
                                 None \<Rightarrow> weights st a
                               | Some g \<Rightarrow> map_option (\<lambda>w. update a w g) (weights st a))
                         else weights st a)\<rparr>"

text \<open>
  One round of the batch loop of \<open>train_classifier_end_to_end\<close>: \<open>opt\<close> was built over
  the classifier's parameters followed by the masker's. The running sums of loss and
  accuracy are left out.
\<close>

definition train_step ::
  "bool \<Rightarrow> (addr \<Rightarrow> tensor \<Rightarrow> tensor \<Rightarrow> tensor) \<Rightarrow> (addr \<Rightarrow> tensor)
   \<Rightarrow> (tensor \<Rightarrow> int list \<Rightarrow> tensor) \<Rightarrow> nn_module \<Rightarrow> nn_module \<Rightarrow> nn_module
   \<Rightarrow> tensor \<Rightarrow> int list \<Rightarrow> autograd \<Rightarrow> error + autograd" where
  "train_step set_to_none update gradient crit adaptive_masker classifier frozen_unet imgs labels st =
     (let opt_params = parameters classifier @ parameters adaptive_masker;
          st1 = zero_grad set_to_none opt_params st;
          enh = feature_masking_enhancement st1 adaptive_masker \<lparr>data = imgs, leaves = {}\<rparr>
                  frozen_unet;
          preds = apply_module True st1 classifier enh;
          loss = \<lparr>data = crit (data preds) labels, leaves = leaves preds\<rparr>
      in case backward gradient loss st1 of
           Inl e \<Rightarrow> Inl e
         | Inr st2 \<Rightarrow> Inr (opt_step update opt_params st2))"

text \<open>The \<open>for batch_idx, (imgs, labels) in enumerate(train_loader)\<close> loop of one epoch.\<close>

fun train_batches ::
  "bool \<Rightarrow> (nat \<Rightarrow> addr \<Rightarrow> tensor \<Rightarrow> tensor \<Rightarrow> tensor) \<Rightarrow> (nat \<Rightarrow> addr \<Rightarrow> tensor)
   \<Rightarrow> (tensor \<Rightarrow> int list \<Rightarrow> tensor) \<Rightarrow> nn_module \<Rightarrow> nn_module \<Rightarrow> nn_module
   \<Rightarrow> nat \<Rightarrow> (tensor \<times> int list) list \<Rightarrow> autograd \<Rightarrow> error + autograd" where
  "train_batches set_to_none update gradient crit adaptive_masker classifier frozen_unet
     batch_idx [] st = Inr st"
| "train_batches set_to_none update gradient crit adaptive_masker classifier frozen_unet
     batch_idx ((imgs, labels) # train_loader) st =
     (case train_step set_to_none (update batch_idx) (gradient batch_idx) crit
             adaptive_masker classifier frozen_unet imgs labels st of
        Inl e \<Rightarrow> Inl e
      | Inr st1 \<Rightarrow>
          train_batches set_to_none update gradient crit adaptive_masker classifier frozen_unet
            (Suc batch_idx) train_loader st1)"

subsection \<open>\<open>BalancedFocalLoss\<close> (lines 419-430)\<close>

text \<open>
  \<open>F.cross_entropy(inputs, targets, reduction='none')\<close>: one row of logits and one class
  index per sample. A batch-size mismatch raises, then a target outside the row raises;
  the default \<open>ignore_index\<close> of -100 yields a zero loss for that sample.
\<close>

definition sample_cross_entropy :: "real list \<Rightarrow> int \<Rightarrow> real" where
  "sample_cross_entropy row t =
     (if t = - 100 then 0 else ln (sum_list (map exp row)) - row ! nat t)"

definition cross_entropy :: "real list list \<Rightarrow> int list \<Rightarrow> error + real list" where
  "cross_entropy inputs targets =
     (if length inputs \<noteq> length targets then Inl ValueError
      else if list_ex (\<lambda>(row, t). t \<noteq> - 100 \<and> (t < 0 \<or> int (length row) \<le> t))
                (zip inputs targets)
        then Inl IndexError
      else Inr (map (\<lambda>(row, t). sample_cross_entropy row t) (zip inputs targets)))"

text \<open>
  \<open>x ** y\<close> on tensors: 1 for a zero exponent whatever the base, and not finite (\<open>None\<close>)
  for a zero base with a negative exponent or a negative base with a fractional one.
\<close>

definition torch_pow :: "real \<Rightarrow> real \<Rightarrow> real option" where
  "torch_pow x y =
     (if y = 0 then Some 1
      else if 0 < x then Some (x powr y)
      else if x = 0 then (if 0 < y then Some 0 else None)
      else if of_int \<lfloor>y\<rfloor> = y then Some (x powi \<lfloor>y\<rfloor>)
      else None)"

text \<open>\<open>.mean()\<close>: \<open>nan\<close> on an empty tensor and on one that holds a \<open>nan\<close>.\<close>

definition tensor_mean :: "real option list \<Rightarrow> real option" where
  "tensor_mean xs =
     (if xs = [] \<or> list_ex (\<lambda>x. x = None) xs then None
      else Some (sum_list (map the xs) / real (length xs)))"

record BalancedFocalLoss =
  alpha :: real
  gamma :: real

definition forward_loss ::
  "BalancedFocalLoss \<Rightarrow> real list list \<Rightarrow> int list \<Rightarrow> error + real option" where
  "forward_loss self inputs targets =
     (case cross_entropy inputs targets of
        Inl e \<Rightarrow> Inl e
      | Inr ce \<Rightarrow>
          let pt = map (\<lambda>c. exp (- c)) ce;
              alpha_t = map (\<lambda>t. alpha self) targets
          in Inr (tensor_mean
               (map (\<lambda>(a, p, c). map_option (\<lambda>w. a * w * c) (torch_pow (1 - p) (gamma self)))
                  (zip alpha_t (zip pt ce)))))"

subsection \<open>Small concrete inputs\<close>

text \<open>A two-parameter model in a store, and a controller with patience 2 watching it.\<close>

definition demo_model :: state_dict where
  "demo_model = [(''weight'', 0), (''bias'', 1)]"

definition demo_store :: store where
  "demo_store = \<lparr>cells = [0 \<mapsto> [1, 2], 1 \<mapsto> [3]], fresh = 2\<rparr>"

definition demo_world :: world where
  "demo_world = \<lparr>es = init 2 False 0, heap = demo_store, out = []\<rparr>"

text \<open>The same after one observed epoch and a training step that moved the weight.\<close>

definition demo_trained :: world where
  "demo_trained =
     (let w = call 1 demo_model demo_world
      in w\<lparr>heap := mutate [(0, [9, 9])] (heap w)\<rparr>)"

text \<open>
  A masker for one channel with parameters away from their initial values, and a batch of
  one 1 x 2 x 2 image; a freshly built masker with two images of one large entry each;
  the same masker with its temperature set to zero.
\<close>

definition demo_masker :: LearnableAdaptiveMasking where
  "demo_masker =
     \<lparr>temperature = Finite False 2, bias = [Finite True 512],
      channel_scale = [Finite False 2], fc_weight = [[fp_one]], fc_bias = [Finite True 256]\<rparr>"

definition demo_batch :: batch where
  "demo_batch = [[[[Finite False 0, Finite False 256], [Finite False 256, Finite False 512]]]]"

definition saturating_masker :: LearnableAdaptiveMasking where
  "saturating_masker = init_masker 1 [[fp_one]] [Finite False 0]"

definition saturating_batch :: batch where
  "saturating_batch = [[[[Finite True 256]]], [[[Finite False 256]]]]"

definition zero_temperature_masker :: LearnableAdaptiveMasking where
  "zero_temperature_masker = saturating_masker\<lparr>temperature := Finite False 0\<rparr>"

definition zero_temperature_batch :: batch where
  "zero_temperature_batch = [[[[Finite False 0, Finite False 512]]]]"





text \<open>
  A masker with four parameters, a classifier with one, a frozen U-Net with one; one
  step of plain gradient descent with all gradients 1.
\<close>

definition demo_masker_module :: nn_module where
  "demo_masker_module = \<lparr>parameters = [0, 1, 2, 3], compute = (\<lambda>w x. x)\<rparr>"

definition demo_classifier :: nn_module where
  "demo_classifier = \<lparr>parameters = [4], compute = (\<lambda>w x. x)\<rparr>"

definition demo_unet :: nn_module where
  "demo_unet = \<lparr>parameters = [5], compute = (\<lambda>w x. x)\<rparr>"

definition demo_autograd :: autograd where
  "demo_autograd =
     \<lparr>weights = (\<lambda>a. Some [1]), requires_grad = (\<lambda>a. a \<noteq> 5), grad = (\<lambda>a. None)\<rparr>"

definition demo_step :: "error + autograd" where
  "demo_step =
     train_step True (\<lambda>a w g. map (\<lambda>(u, v). u - v) (zip w g)) (\<lambda>a. [1]) (\<lambda>p l. [sum_list p])
       demo_masker_module demo_classifier demo_unet [1/2] [0] demo_autograd"

lemmas demo_defs = demo_model_def demo_store_def demo_world_def init_def call_def
  save_checkpoint_def trace_func_def Let_def

section \<open>Facts about the embedding\<close>

subsection \<open>Rounding\<close>

lemma nearest_even_le: "y \<le> of_int n \<Longrightarrow> nearest_even y \<le> n"
proof -
  assume y: "y \<le> of_int n"
  show ?thesis
  proof (cases "y = of_int n")
    case True
    then show ?thesis by (simp add: nearest_even_def)
  next
    case False
    then have "y < of_int n" using y by simp
    then have "\<lfloor>y\<rfloor> < n" by (simp add: floor_less_iff)
    then show ?thesis by (simp add: nearest_even_def Let_def)
  qed
qed

lemma nearest_even_ge: "of_int n \<le> y \<Longrightarrow> n \<le> nearest_even y"
proof -
  assume "of_int n \<le> y"
  then have "n \<le> \<lfloor>y\<rfloor>" by (simp add: le_floor_iff)
  then show ?thesis by (simp add: nearest_even_def Let_def)
qed

lemma nearest_even_int: "nearest_even (of_int n) = n"
  by (simp add: nearest_even_def)

lemma nearest_even_small: "0 \<le> y \<Longrightarrow> y < 1 / 2 \<Longrightarrow> nearest_even y = 0"
proof -
  assume y: "0 \<le> y" "y < 1 / 2"
  then have "\<lfloor>y\<rfloor> = 0" by (intro floor_unique) simp_all
  then show ?thesis using y by (simp add: nearest_even_def)
qed

lemma floor_log2: "0 < m \<Longrightarrow> \<lfloor>log 2 m\<rfloor> = k \<longleftrightarrow> 2 powi k \<le> m \<and> m < 2 powi (k + 1)"
proof -
  assume m: "0 < m"
  have a: "(2::real) powr real_of_int k = 2 powi k" by (simp add: powr_real_of_int')
  have b: "(2::real) powr real_of_int (k + 1) = 2 powi (k + 1)"
    by (rule powr_real_of_int') simp_all
  show ?thesis using floor_log_eq_powr_iff [of m 2 k] m unfolding a b by simp
qed

lemma pow2_pos: "0 < (2::real) powi k"
  by (simp add: zero_less_power_int)

lemma pow2_nat: "0 \<le> k \<Longrightarrow> (2::real) powi k = of_int (2 ^ nat k)"
  by (simp add: power_int_def)

lemma pow2_add: "(2::real) powi (a + b) = 2 powi a * 2 powi b"
  by (simp add: power_int_add)

lemma pow2_mono: "a \<le> b \<Longrightarrow> (2::real) powi a \<le> 2 powi b"
  by (simp add: power_int_increasing)

lemma quantum_pos: "0 < quantum fmt m"
  by (simp add: quantum_def pow2_pos)

lemma floor_log2_bounds:
  assumes "0 < m"
  shows "2 powi \<lfloor>log 2 m\<rfloor> \<le> m" and "m < 2 powi (\<lfloor>log 2 m\<rfloor> + 1)"
  using floor_log2 [OF assms, of "\<lfloor>log 2 m\<rfloor>"] by simp_all

lemma round_mag_nonneg: "0 \<le> m \<Longrightarrow> round_mag fmt m = Some v \<Longrightarrow> 0 \<le> v"
proof -
  assume m: "0 \<le> m" and r: "round_mag fmt m = Some v"
  show ?thesis
  proof (cases "m = 0")
    case True
    then show ?thesis using r by (simp add: round_mag_def)
  next
    case False
    have "of_int 0 \<le> m / quantum fmt m" using m quantum_pos [of fmt m] by simp
    then have "0 \<le> nearest_even (m / quantum fmt m)" by (rule nearest_even_ge)
    moreover have "v = of_int (nearest_even (m / quantum fmt m)) * quantum fmt m"
      using r False by (simp add: round_mag_def Let_def split: if_splits)
    ultimately show ?thesis using quantum_pos [of fmt m] by simp
  qed
qed

lemma round_mag_lower:
  assumes "0 < m" and "1 - emax fmt \<le> \<lfloor>log 2 m\<rfloor>"
  shows "2 powi \<lfloor>log 2 m\<rfloor> \<le> of_int (nearest_even (m / quantum fmt m)) * quantum fmt m"
proof -
  let ?e = "\<lfloor>log 2 m\<rfloor>"
  have q: "quantum fmt m = 2 powi (?e - int (mant fmt))"
    using assms(2) by (simp add: quantum_def max_def)
  have "(2::real) powi (int (mant fmt) + (?e - int (mant fmt)))
      = 2 powi int (mant fmt) * 2 powi (?e - int (mant fmt))"
    by (rule pow2_add)
  moreover have "int (mant fmt) + (?e - int (mant fmt)) = ?e" by simp
  moreover have "(2::real) powi int (mant fmt) = of_int (2 ^ mant fmt)" by simp
  ultimately have key: "of_int (2 ^ mant fmt) * quantum fmt m = 2 powi ?e"
    by (simp only: q)
  have "2 powi ?e \<le> m" using assms(1) by (rule floor_log2_bounds)
  then have "of_int (2 ^ mant fmt) * quantum fmt m \<le> m" by (simp only: key)
  then have "of_int (2 ^ mant fmt) \<le> m / quantum fmt m"
    using quantum_pos [of fmt m] by (simp only: pos_le_divide_eq)
  then have "2 ^ mant fmt \<le> nearest_even (m / quantum fmt m)" by (rule nearest_even_ge)
  then have "(of_int (2 ^ mant fmt) :: real) \<le> of_int (nearest_even (m / quantum fmt m))"
    by (simp only: of_int_le_iff)
  then have "of_int (2 ^ mant fmt) * quantum fmt m
      \<le> of_int (nearest_even (m / quantum fmt m)) * quantum fmt m"
    using quantum_pos [of fmt m] by (intro mult_right_mono) simp_all
  then show ?thesis by (simp only: key)
qed

lemma round_mag_overflow:
  assumes "2 powi (emax fmt + 1) \<le> m" and "1 \<le> emax fmt"
  shows "round_mag fmt m = None"
proof -
  have m: "0 < m" using assms pow2_pos [of "emax fmt + 1"] by linarith
  have "\<not> m < 2 powi (emax fmt + 1)" using assms by simp
  then have e: "emax fmt + 1 \<le> \<lfloor>log 2 m\<rfloor>"
  proof -
    have "m < 2 powi (\<lfloor>log 2 m\<rfloor> + 1)" using m by (rule floor_log2_bounds)
    then have "2 powi (emax fmt + 1) < (2::real) powi (\<lfloor>log 2 m\<rfloor> + 1)" using assms by linarith
    then have "\<not> \<lfloor>log 2 m\<rfloor> + 1 \<le> emax fmt + 1" using pow2_mono by (metis not_less)
    then show ?thesis by linarith
  qed
  have "2 powi \<lfloor>log 2 m\<rfloor> \<le> of_int (nearest_even (m / quantum fmt m)) * quantum fmt m"
    using m e assms(2) by (intro round_mag_lower) linarith+
  moreover have "(2::real) powi (emax fmt + 1) \<le> 2 powi \<lfloor>log 2 m\<rfloor>" using e by (rule pow2_mono)
  ultimately show ?thesis using m by (simp add: round_mag_def Let_def)
qed

lemma round_mag_ge_one:
  assumes "1 \<le> m" and "round_mag fmt m = Some v" and "1 \<le> emax fmt"
  shows "1 \<le> v"
proof -
  have m: "0 < m" using assms(1) by simp
  have "(2::real) powi 0 \<le> m" using assms(1) by simp
  have e: "0 \<le> \<lfloor>log 2 m\<rfloor>"
  proof -
    have "m < 2 powi (\<lfloor>log 2 m\<rfloor> + 1)" using m by (rule floor_log2_bounds)
    then have "(2::real) powi 0 < 2 powi (\<lfloor>log 2 m\<rfloor> + 1)" using assms(1) by simp
    then have "\<not> \<lfloor>log 2 m\<rfloor> + 1 \<le> 0" using pow2_mono by (metis not_less)
    then show ?thesis by linarith
  qed
  have "2 powi \<lfloor>log 2 m\<rfloor> \<le> of_int (nearest_even (m / quantum fmt m)) * quantum fmt m"
    using m e assms(3) by (intro round_mag_lower) linarith+
  moreover have "(2::real) powi 0 \<le> 2 powi \<lfloor>log 2 m\<rfloor>" using e by (rule pow2_mono)
  moreover have "v = of_int (nearest_even (m / quantum fmt m)) * quantum fmt m"
    using assms(2) m by (simp add: round_mag_def Let_def split: if_splits)
  ultimately show ?thesis by simp
qed

lemma round_mag_le_one:
  assumes "0 \<le> m" and "m \<le> 1" and "1 \<le> emax fmt"
  shows "\<exists>v. round_mag fmt m = Some v \<and> v \<le> 1"
proof (cases "m = 0")
  case True
  then show ?thesis by (simp add: round_mag_def)
next
  case False
  then have m: "0 < m" using assms(1) by simp
  define e where "e = max \<lfloor>log 2 m\<rfloor> (1 - emax fmt)"
  have "\<lfloor>log 2 m\<rfloor> \<le> 0"
  proof -
    have "2 powi \<lfloor>log 2 m\<rfloor> \<le> m" using m by (rule floor_log2_bounds)
    then have "(2::real) powi \<lfloor>log 2 m\<rfloor> < 2 powi 1" using assms(2) by simp
    then have "\<not> 1 \<le> \<lfloor>log 2 m\<rfloor>" using pow2_mono by (metis not_less)
    then show ?thesis by linarith
  qed
  then have e: "e \<le> 0" using assms(3) by (simp add: e_def)
  have q: "quantum fmt m = 2 powi (e - int (mant fmt))" by (simp add: quantum_def e_def)
  define N :: int where "N = 2 ^ nat (int (mant fmt) - e)"
  have N: "of_int N = (2::real) powi (int (mant fmt) - e)"
    using e by (simp add: N_def pow2_nat)
  have Nq: "of_int N * quantum fmt m = 1"
    using pow2_add [of "int (mant fmt) - e" "e - int (mant fmt)"] by (simp add: N q)
  have "m \<le> of_int N * quantum fmt m" using assms(2) Nq by simp
  then have "m / quantum fmt m \<le> of_int N"
    using quantum_pos [of fmt m] by (simp add: pos_divide_le_eq)
  then have "nearest_even (m / quantum fmt m) \<le> N" by (rule nearest_even_le)
  then have "(of_int (nearest_even (m / quantum fmt m)) :: real) \<le> of_int N"
    by (simp only: of_int_le_iff)
  then have "of_int (nearest_even (m / quantum fmt m)) * quantum fmt m \<le> of_int N * quantum fmt m"
    using quantum_pos [of fmt m] by (simp add: mult_right_mono)
  then have v: "of_int (nearest_even (m / quantum fmt m)) * quantum fmt m \<le> 1" using Nq by simp
  have "(2::real) powi 1 \<le> 2 powi (emax fmt + 1)" using assms(3) by (intro pow2_mono) simp
  then have "(1::real) < 2 powi (emax fmt + 1)" by simp
  then show ?thesis using v False by (simp add: round_mag_def Let_def)
qed

lemma round_mag_one: "1 \<le> emax fmt \<Longrightarrow> round_mag fmt 1 = Some 1"
proof -
  assume e: "1 \<le> emax fmt"
  obtain v where v: "round_mag fmt 1 = Some v" "v \<le> 1"
    using round_mag_le_one [of 1 fmt] e by auto
  then have "1 \<le> v" using round_mag_ge_one [of 1 fmt v] e by simp
  then show ?thesis using v by simp
qed

lemma pow2_strict: "a < b \<Longrightarrow> (2::real) powi a < 2 powi b"
proof -
  assume "a < b"
  then have "a + 1 \<le> b" by simp
  then have "(2::real) powi (a + 1) \<le> 2 powi b" by (rule pow2_mono)
  moreover have "(2::real) powi (a + 1) = 2 powi a * 2 powi 1" by (rule pow2_add)
  moreover have "(2::real) powi 1 = 2" by simp
  moreover have "(0::real) < 2 powi a" by (rule pow2_pos)
  ultimately have "2 powi a * 2 \<le> (2::real) powi b" "(0::real) < 2 powi a" by simp_all
  then show ?thesis by linarith
qed

lemma floor_log2_pow2: "\<lfloor>log 2 (2 powi k)\<rfloor> = k"
  using floor_log2 [of "2 powi k" k] pow2_pos [of k] pow2_strict [of k "k + 1"] by simp

lemma scaled_nearest_even:
  assumes "0 < Q" and "0 \<le> n" and "x = 2 powi n * Q"
  shows "of_int (nearest_even (x / Q)) * Q = x"
proof -
  have "x / Q = 2 powi n" using assms(1,3) by simp
  also have "\<dots> = of_int (2 ^ nat n)" using assms(2) by (simp only: pow2_nat)
  finally have e: "x / Q = of_int (2 ^ nat n)" .
  have "nearest_even (x / Q) = 2 ^ nat n" unfolding e by (rule nearest_even_int)
  then have "of_int (nearest_even (x / Q)) * Q = of_int (2 ^ nat n) * Q" by simp
  also have "\<dots> = x / Q * Q" by (simp only: e)
  also have "\<dots> = x" using assms(1) by simp
  finally show ?thesis .
qed

lemma round_mag_pow2:
  assumes "1 - emax fmt - int (mant fmt) \<le> k" and "k \<le> emax fmt"
  shows "round_mag fmt (2 powi k) = Some (2 powi k)"
proof -
  define e where "e = max k (1 - emax fmt)"
  define n where "n = k - e + int (mant fmt)"
  have n: "0 \<le> n" using assms(1) by (simp add: n_def e_def max_def)
  have q: "quantum fmt (2 powi k) = 2 powi (e - int (mant fmt))"
    by (simp add: quantum_def floor_log2_pow2 e_def)
  have a1: "(2::real) powi (n + (e - int (mant fmt))) = 2 powi n * 2 powi (e - int (mant fmt))"
    by (rule pow2_add)
  have a2: "n + (e - int (mant fmt)) = k" by (simp add: n_def)
  have k: "(2::real) powi k = 2 powi n * quantum fmt (2 powi k)"
    by (metis a1 a2 q)
  have v: "of_int (nearest_even (2 powi k / quantum fmt (2 powi k))) * quantum fmt (2 powi k)
      = 2 powi k"
    using quantum_pos n k by (rule scaled_nearest_even)
  have "(2::real) powi k < 2 powi (emax fmt + 1)" using assms(2) by (intro pow2_strict) simp
  moreover have "(2::real) powi k \<noteq> 0" using pow2_pos [of k] by linarith
  ultimately show ?thesis
    unfolding round_mag_def Let_def v by simp
qed

lemma round_mag_underflow:
  assumes "0 < m" and "m < 2 powi (- emax fmt - int (mant fmt))"
  shows "round_mag fmt m = Some 0"
proof -
  have "2 powi \<lfloor>log 2 m\<rfloor> \<le> m" using assms(1) by (rule floor_log2_bounds)
  then have "(2::real) powi \<lfloor>log 2 m\<rfloor> < 2 powi (- emax fmt - int (mant fmt))"
    using assms(2) by linarith
  then have "\<not> - emax fmt - int (mant fmt) \<le> \<lfloor>log 2 m\<rfloor>" using pow2_mono by (metis not_less)
  then have "\<lfloor>log 2 m\<rfloor> \<le> 1 - emax fmt" by linarith
  then have q: "quantum fmt m = 2 powi (1 - emax fmt - int (mant fmt))"
    by (simp add: quantum_def max_def)
  have "(2::real) powi (- 1 + (1 - emax fmt - int (mant fmt)))
      = 2 powi (- 1) * 2 powi (1 - emax fmt - int (mant fmt))"
    by (rule pow2_add)
  moreover have "- 1 + (1 - emax fmt - int (mant fmt)) = - emax fmt - int (mant fmt)" by simp
  ultimately have "(2::real) powi (- emax fmt - int (mant fmt)) = 1 / 2 * quantum fmt m"
    by (simp add: q)
  then have "m < 1 / 2 * quantum fmt m" using assms(2) by simp
  then have "m / quantum fmt m < 1 / 2"
    using quantum_pos [of fmt m] by (simp add: pos_divide_less_eq)
  moreover have "0 \<le> m / quantum fmt m" using assms(1) quantum_pos [of fmt m] by simp
  ultimately have "nearest_even (m / quantum fmt m) = 0" by (intro nearest_even_small)
  moreover have "(0::real) < 2 powi (emax fmt + 1)" by (rule pow2_pos)
  then have "\<not> 2 powi (emax fmt + 1) \<le> (0::real)" by linarith
  ultimately show ?thesis using assms(1) by (simp add: round_mag_def)
qed

lemma fp_round_exact: "round_mag fmt m = Some m \<Longrightarrow> fp_round fmt s m = Finite s m"
  by (simp add: fp_round_def)

lemma fp_round_not_NaN: "fp_round fmt s m \<noteq> NaN"
  by (simp add: fp_round_def split: option.splits)

lemma exp_ge_pow2:
  fixes m :: real
  assumes "0 \<le> m"
  shows "2 powr m \<le> exp m"
proof -
  have "ln (2::real) \<le> 1" using ln_2_less_1 by simp
  then have "m * ln (2::real) \<le> m * 1" using assms by (intro mult_left_mono) simp_all
  then have "exp (m * ln 2) \<le> exp m" by simp
  then show ?thesis by (simp add: powr_def)
qed

lemma exp_ge_powi:
  assumes "real_of_int k \<le> m" and "0 \<le> m"
  shows "2 powi k \<le> exp m"
proof -
  have "(2::real) powi k = 2 powr (real_of_int k)" by (simp add: powr_real_of_int')
  also have "\<dots> \<le> 2 powr m" using assms(1) by (intro powr_mono) simp_all
  also have "\<dots> \<le> exp m" using assms(2) by (rule exp_ge_pow2)
  finally show ?thesis .
qed

lemma exp_neg_lt_powi:
  assumes "real_of_int k < m" and "0 \<le> m"
  shows "exp (- m) < 2 powi (- k)"
proof -
  have "(2::real) powr (real_of_int (- k)) = 2 powi (- k)"
    by (rule powr_real_of_int') simp_all
  then have "(2::real) powi (- k) = 2 powr (real_of_int (- k))" by (rule sym)
  then have "(2::real) powi (- k) = 2 powr (- real_of_int k)" by simp
  moreover have "(2::real) powr (- m) < 2 powr (- real_of_int k)"
    using assms(1) by (intro powr_less_mono) simp_all
  moreover have "exp (- m) \<le> 2 powr (- m)"
    using exp_ge_pow2 [OF assms(2)] by (simp add: exp_minus powr_minus field_simps)
  ultimately show ?thesis by linarith
qed

lemma fexp_cases:
  assumes "z \<noteq> NaN"
  shows "fexp fmt z = Infinite False \<or> (\<exists>e. fexp fmt z = Finite False e \<and> 0 \<le> e)"
proof (cases z)
  case (Finite s m)
  show ?thesis
  proof (cases "round_mag fmt (exp (val s m))")
    case None
    then show ?thesis by (simp add: Finite fp_round_def)
  next
    case (Some e)
    then have "0 \<le> e" using round_mag_nonneg [of "exp (val s m)" fmt e] by simp
    then show ?thesis using Some by (simp add: Finite fp_round_def)
  qed
next
  case (Infinite s)
  then show ?thesis by simp
next
  case NaN
  then show ?thesis using assms by simp
qed

lemma logistic_unit:
  assumes "1 \<le> emax fmt" and "z \<noteq> NaN"
  shows "in_unit (fdiv fmt fp_one (fadd fmt fp_one (fexp fmt (fneg z))))"
proof -
  have nz: "fneg z \<noteq> NaN" using assms(2) by (cases z) simp_all
  consider (inf) "fexp fmt (fneg z) = Infinite False"
    | (fin) e where "fexp fmt (fneg z) = Finite False e" "0 \<le> e"
    using fexp_cases [OF nz, of fmt] by blast
  then show ?thesis
  proof cases
    case inf
    then show ?thesis by (simp add: fp_one_def in_unit_def)
  next
    case fin
    have pos: "1 + e \<noteq> 0" "\<not> 1 + e < 0" "\<bar>1 + e\<bar> = 1 + e" using fin(2) by simp_all
    have sum: "fadd fmt fp_one (Finite False e) = fp_round fmt False (1 + e)"
      using pos by (simp add: fp_one_def val_def Let_def)
    show ?thesis
    proof (cases "round_mag fmt (1 + e)")
      case None
      have "fdiv fmt fp_one (fadd fmt fp_one (fexp fmt (fneg z)))
          = fdiv fmt fp_one (fp_round fmt False (1 + e))"
        by (simp only: fin sum)
      then show ?thesis using None by (simp add: fp_round_def fp_one_def in_unit_def)
    next
      case (Some d)
      have d: "1 \<le> d" using round_mag_ge_one [of "1 + e" fmt d] Some fin(2) assms(1) by simp
      then have "0 \<le> 1 / d" "1 / d \<le> 1" by simp_all
      then obtain u where u: "round_mag fmt (1 / d) = Some u" "u \<le> 1"
        using round_mag_le_one [of "1 / d" fmt] assms(1) by blast
      have "0 \<le> u" using round_mag_nonneg [of "1 / d" fmt u] u d by simp
      have "fdiv fmt fp_one (fadd fmt fp_one (fexp fmt (fneg z)))
          = fdiv fmt fp_one (fp_round fmt False (1 + e))"
        by (simp only: fin sum)
      then show ?thesis
        using u d \<open>0 \<le> u\<close> Some by (simp add: fp_round_def fp_one_def in_unit_def)
    qed
  qed
qed

lemma fmul_unit:
  assumes "1 \<le> emax fmt" and "in_unit a" and "in_unit b"
  shows "in_unit (fmul fmt a b)"
proof -
  obtain m where a: "a = Finite False m" "0 \<le> m" "m \<le> 1"
    using assms(2) by (cases a) (simp_all add: in_unit_def)
  obtain n where b: "b = Finite False n" "0 \<le> n" "n \<le> 1"
    using assms(3) by (cases b) (simp_all add: in_unit_def)
  have "0 \<le> m * n" using a b by simp
  moreover have "m * n \<le> 1" using a b by (simp add: mult_le_one)
  ultimately obtain v where v: "round_mag fmt (m * n) = Some v" "v \<le> 1"
    using round_mag_le_one [of "m * n" fmt] assms(1) by blast
  have "0 \<le> v" using round_mag_nonneg [of "m * n" fmt v] v a b by simp
  then show ?thesis using v by (simp add: a b fp_round_def in_unit_def)
qed

lemma fmul_NaN_iff:
  "in_unit a \<or> a = NaN \<Longrightarrow> in_unit b \<or> b = NaN \<Longrightarrow>
   fmul fmt a b = NaN \<longleftrightarrow> a = NaN \<or> b = NaN"
  by (cases a; cases b) (auto simp: in_unit_def fp_round_def split: option.splits)


subsection \<open>The masking module\<close>

lemma emax32: "1 \<le> emax binary32" by (simp add: binary32_def)

lemma sigmoid_NaN: "sigmoid NaN = NaN"
  by (simp add: sigmoid_def fp_one_def)

lemma sigmoid_unit: "z \<noteq> NaN \<Longrightarrow> in_unit (sigmoid z)"
  using logistic_unit [OF emax32, of z] by (simp add: sigmoid_def)

lemma sigmoid_NaN_iff: "sigmoid z = NaN \<longleftrightarrow> z = NaN"
proof (cases "z = NaN")
  case True
  then show ?thesis by (simp add: sigmoid_NaN)
next
  case False
  then have "in_unit (sigmoid z)" by (rule sigmoid_unit)
  then have "sigmoid z \<noteq> NaN" by (auto simp: in_unit_def)
  then show ?thesis using False by simp
qed

lemma sigmoid_cases: "in_unit (sigmoid z) \<or> sigmoid z = NaN"
  using sigmoid_unit [of z] sigmoid_NaN by (cases "z = NaN") simp_all

lemma mask_entry:
  "fmul binary32 (sigmoid z) (sigmoid g) = NaN \<longleftrightarrow> z = NaN \<or> g = NaN"
  "fmul binary32 (sigmoid z) (sigmoid g) = NaN \<or> in_unit (fmul binary32 (sigmoid z) (sigmoid g))"
proof -
  show "fmul binary32 (sigmoid z) (sigmoid g) = NaN \<longleftrightarrow> z = NaN \<or> g = NaN"
    using fmul_NaN_iff [OF sigmoid_cases sigmoid_cases] by (simp add: sigmoid_NaN_iff)
  then show "fmul binary32 (sigmoid z) (sigmoid g) = NaN
      \<or> in_unit (fmul binary32 (sigmoid z) (sigmoid g))"
    using fmul_unit [OF emax32 sigmoid_unit sigmoid_unit, of z g] by blast
qed

lemma scaled_not_NaN:
  assumes "is_finite v" and "is_finite s" and "is_finite b" and "is_finite t" and "fp_nonzero t"
  shows "fdiv binary32 (fadd binary32 (fmul binary32 v s) b) t \<noteq> NaN"
proof -
  obtain sv mv ss ms sb mb st mt where
    v: "v = Finite sv mv" and s: "s = Finite ss ms" and b: "b = Finite sb mb"
    and t: "t = Finite st mt"
    using assms(1-4) by (auto simp: is_finite_def split: fp.splits)
  have mt: "mt \<noteq> 0" using assms(5) by (simp add: t)
  have "fmul binary32 v s = fp_round binary32 (sv \<noteq> ss) (mv * ms)" by (simp add: v s)
  then consider (fin) p q where "fmul binary32 v s = Finite p q"
    | (inf) p where "fmul binary32 v s = Infinite p"
    by (cases "round_mag binary32 (mv * ms)") (simp_all add: fp_round_def)
  then have "fadd binary32 (fmul binary32 v s) b \<noteq> NaN"
  proof cases
    case fin
    then show ?thesis by (simp add: b Let_def fp_round_not_NaN)
  next
    case inf
    then show ?thesis by (simp add: b)
  qed
  then show ?thesis
    using mt by (cases "fadd binary32 (fmul binary32 v s) b") (simp_all add: t fp_round_not_NaN)
qed

lemma length_global_fc: "masker_shaped self n \<Longrightarrow> length (global_fc self img) = n"
  by (simp add: masker_shaped_def global_fc_def fc_linear_def)

lemma length_forward_image:
  "masker_shaped self n \<Longrightarrow> length img = n \<Longrightarrow> length (forward_image self img) = n"
  using length_global_fc [of self n img] by (simp add: forward_image_def Let_def masker_shaped_def)

lemma length_forward_image_plane:
  "masker_shaped self n \<Longrightarrow> length img = n \<Longrightarrow> c < n \<Longrightarrow>
   length (forward_image self img ! c) = length (img ! c)"
  using length_global_fc [of self n img] by (simp add: forward_image_def Let_def masker_shaped_def)

lemma length_forward_image_row:
  "masker_shaped self n \<Longrightarrow> length img = n \<Longrightarrow> c < n \<Longrightarrow> i < length (img ! c) \<Longrightarrow>
   length (forward_image self img ! c ! i) = length (img ! c ! i)"
  using length_global_fc [of self n img] by (simp add: forward_image_def Let_def masker_shaped_def)

lemma forward_image_nth:
  "masker_shaped self n \<Longrightarrow> length img = n \<Longrightarrow> c < n \<Longrightarrow> i < length (img ! c) \<Longrightarrow>
   j < length (img ! c ! i) \<Longrightarrow>
   forward_image self img ! c ! i ! j
     = fmul binary32
         (sigmoid (fdiv binary32
            (fadd binary32 (fmul binary32 (img ! c ! i ! j) (channel_scale self ! c)) (bias self ! c))
            (temperature self)))
         (global_fc self img ! c)"
  using length_global_fc [of self n img] by (simp add: forward_image_def Let_def masker_shaped_def)

lemma global_fc_nth:
  assumes "masker_shaped self n" and "length img = n" and "c < n"
  shows "global_fc self img ! c
       = sigmoid (fadd binary32
           (fsum binary32 (map (\<lambda>k. fmul binary32 (fc_weight self ! c ! k) (adaptive_avg_pool img ! k))
                             [0..<n]))
           (fc_bias self ! c))"
proof -
  have row: "length (fc_weight self ! c) = n"
    using assms(1,3) by (simp add: masker_shaped_def list_all_length)
  have pool: "length (adaptive_avg_pool img) = n"
    using assms(2) by (simp add: adaptive_avg_pool_def)
  have "map (\<lambda>(w, x). fmul binary32 w x) (zip (fc_weight self ! c) (adaptive_avg_pool img))
      = map (\<lambda>k. fmul binary32 (fc_weight self ! c ! k) (adaptive_avg_pool img ! k)) [0..<n]"
    using row pool by (intro nth_equalityI) simp_all
  then show ?thesis
    using assms(1,3) by (simp add: global_fc_def fc_linear_def masker_shaped_def)
qed

lemma batch_shaped_nth:
  "batch_shaped x n h w \<longleftrightarrow>
     (\<forall>b<length x. length (x ! b) = n
        \<and> (\<forall>c<n. length (x ! b ! c) = h \<and> (\<forall>i<h. length (x ! b ! c ! i) = w)))"
  by (auto simp: batch_shaped_def list_all_length)

lemma plane_size:
  assumes "length plane = h" and "\<forall>i<h. length (plane ! i) = w"
  shows "length (concat plane) = h * w"
proof -
  have "map length plane = replicate h w"
    using assms by (intro nth_equalityI) simp_all
  then show ?thesis by (simp add: length_concat sum_list_replicate)
qed

lemma round32_exact:
  "round_mag binary32 0 = Some 0"
  "round_mag binary32 1 = Some 1"
  "round_mag binary32 2 = Some 2"
  "round_mag binary32 4 = Some 4"
  "round_mag binary32 (1 / 2) = Some (1 / 2)"
  "round_mag binary32 (1 / 4) = Some (1 / 4)"
  "round_mag binary32 256 = Some 256"
  "round_mag binary32 512 = Some 512"
  "round_mag binary32 1024 = Some 1024"
  using round_mag_pow2 [of binary32 0] round_mag_pow2 [of binary32 1]
    round_mag_pow2 [of binary32 2]
    round_mag_pow2 [of binary32 "- 1"] round_mag_pow2 [of binary32 "- 2"]
    round_mag_pow2 [of binary32 8] round_mag_pow2 [of binary32 9] round_mag_pow2 [of binary32 10]
  by (simp_all add: binary32_def power_int_minus round_mag_def)

lemma sigmoid_zero: "sigmoid (Finite s 0) = Finite False (1 / 2)"
  by (simp add: sigmoid_def fp_one_def val_def fp_round_def round32_exact Let_def)

lemma sigmoid_saturates_low:
  assumes "128 \<le> m"
  shows "sigmoid (Finite True m) = Finite False 0"
proof -
  have "2 powi 128 \<le> exp m" using assms by (intro exp_ge_powi) simp_all
  then have "round_mag binary32 (exp m) = None"
    by (intro round_mag_overflow) (simp_all add: binary32_def)
  then show ?thesis by (simp add: sigmoid_def fp_one_def val_def fp_round_def)
qed

lemma sigmoid_saturates_high:
  assumes "150 < m"
  shows "sigmoid (Finite False m) = Finite False 1"
proof -
  have "exp (- m) < 2 powi (- 150)" using assms by (intro exp_neg_lt_powi) simp_all
  then have "round_mag binary32 (exp (- m)) = Some 0"
    by (intro round_mag_underflow) (simp_all add: binary32_def)
  then show ?thesis
    by (simp add: sigmoid_def fp_one_def val_def fp_round_def round32_exact Let_def)
qed


subsection \<open>Strings and labels\<close>

lemma str_in_sublist: "str_in n h \<longleftrightarrow> sublist n h"
  by (induction h) (auto simp: sublist_Cons_right)

lemma str_in_occurrence: "str_in n h \<longleftrightarrow> (\<exists>before after. h = before @ n @ after)"
  by (simp add: str_in_sublist sublist_def)

lemma lower_char_idem: "lower_char (lower_char c) = lower_char c"
  by (simp add: lower_char_def split: option.splits if_splits)

lemma str_lower_idem: "str_lower (str_lower s) = str_lower s"
  by (simp add: str_lower_def lower_char_idem)

lemma consolidate_loop_map:
  "consolidate_loop acc labels = acc @ map consolidate_label labels"
  by (induction labels arbitrary: acc) simp_all

lemma consolidate_label_spec_class: "consolidate_label label = spec_class label"
  by (simp add: consolidate_label_def spec_class_def priority_rules_def any_in_def
      str_in_sublist Let_def)

lemma consolidate_label_six: "consolidate_label label \<in> set six_classes"
  by (simp add: consolidate_label_def six_classes_def Let_def)


subsection \<open>The controller, one call at a time\<close>

lemma es_save_checkpoint:
  "es (save_checkpoint l m w) =
     (es w)\<lparr>best_model_state_dict := Some (fst (deepcopy m (heap w))), val_loss_min := Some l\<rparr>"
  by (simp add: save_checkpoint_def Let_def split: prod.splits)

lemma heap_save_checkpoint: "heap (save_checkpoint l m w) = snd (deepcopy m (heap w))"
  by (simp add: save_checkpoint_def Let_def split: prod.splits)

lemma call_first:
  "best_score (es w) = None \<Longrightarrow>
   es (call l m w) = (es w)\<lparr>best_score := Some (- l),
      best_model_state_dict := Some (fst (deepcopy m (heap w))), val_loss_min := Some l\<rparr>"
  by (simp add: call_def es_save_checkpoint)

lemma call_worse:
  "best_score (es w) = Some b \<Longrightarrow> - l < b + delta (es w) \<Longrightarrow>
   es (call l m w) = (es w)\<lparr>counter := counter (es w) + 1,
      early_stop := (if patience (es w) \<le> counter (es w) + 1 then True else early_stop (es w))\<rparr>"
  by (simp add: call_def Let_def)

lemma call_better:
  "best_score (es w) = Some b \<Longrightarrow> \<not> - l < b + delta (es w) \<Longrightarrow>
   es (call l m w) = (es w)\<lparr>best_score := Some (- l),
      best_model_state_dict := Some (fst (deepcopy m (heap w))), val_loss_min := Some l,
      counter := 0\<rparr>"
  by (simp add: call_def Let_def es_save_checkpoint)

lemma heap_call_first:
  "best_score (es w) = None \<Longrightarrow> heap (call l m w) = snd (deepcopy m (heap w))"
  by (simp add: call_def heap_save_checkpoint)

lemma heap_call_better:
  "best_score (es w) = Some b \<Longrightarrow> \<not> - l < b + delta (es w) \<Longrightarrow>
   heap (call l m w) = snd (deepcopy m (heap w))"
  by (simp add: call_def Let_def heap_save_checkpoint)

lemma heap_call_worse:
  "best_score (es w) = Some b \<Longrightarrow> - l < b + delta (es w) \<Longrightarrow> heap (call l m w) = heap w"
  by (simp add: call_def Let_def)

lemma call_early_stop_mono: "early_stop (es w) \<Longrightarrow> early_stop (es (call l m w))"
proof (cases "best_score (es w)")
  case None
  then show "early_stop (es w) \<Longrightarrow> ?thesis" by (simp add: call_first)
next
  case (Some b)
  then show "early_stop (es w) \<Longrightarrow> ?thesis"
    by (cases "- l < b + delta (es w)") (simp_all add: call_worse call_better)
qed

lemma feed_early_stop_mono: "early_stop (es w) \<Longrightarrow> early_stop (es (feed ls m w))"
  by (induction ls arbitrary: w) (simp_all add: call_early_stop_mono)

lemma call_keeps_config:
  "patience (es (call l m w)) = patience (es w)"
  "delta (es (call l m w)) = delta (es w)"
  "verbose (es (call l m w)) = verbose (es w)"
proof -
  show "patience (es (call l m w)) = patience (es w)"
    by (cases "best_score (es w)"; cases "- l < the (best_score (es w)) + delta (es w)")
       (simp_all add: call_first call_worse call_better)
  show "delta (es (call l m w)) = delta (es w)"
    by (cases "best_score (es w)"; cases "- l < the (best_score (es w)) + delta (es w)")
       (simp_all add: call_first call_worse call_better)
  show "verbose (es (call l m w)) = verbose (es w)"
    by (cases "best_score (es w)"; cases "- l < the (best_score (es w)) + delta (es w)")
       (simp_all add: call_first call_worse call_better)
qed

lemma feed_decreasing:
  assumes "sorted_wrt (>) ls" and "\<not> early_stop (es w)"
    and "case best_score (es w) of None \<Rightarrow> True | Some b \<Rightarrow> \<forall>l\<in>set ls. \<not> - l < b + delta (es w)"
    and "delta (es w) \<le> 0"
  shows "\<not> early_stop (es (feed ls m w))"
  using assms
proof (induction ls arbitrary: w)
  case Nil
  then show ?case by simp
next
  case (Cons l ls)
  let ?w = "call l m w"
  have best: "best_score (es ?w) = Some (- l)" and stop: "\<not> early_stop (es ?w)"
    using Cons.prems(2,3)
    by (cases "best_score (es w)"; simp add: call_first call_better)+
  have later: "\<forall>l'\<in>set ls. \<not> - l' < - l + delta (es ?w)"
    using Cons.prems(1,4) by (auto simp: call_keeps_config)
  have "\<not> early_stop (es (feed ls m ?w))"
    using Cons.prems(1,4) best stop later
    by (intro Cons.IH) (simp_all add: call_keeps_config)
  then show ?case by simp
qed

lemma feed_worse:
  assumes "best_score (es w) = Some b" and "\<forall>l\<in>set ls. - l < b + delta (es w)"
  shows "counter (es (feed ls m w)) = counter (es w) + int (length ls)
       \<and> best_score (es (feed ls m w)) = Some b
       \<and> best_model_state_dict (es (feed ls m w)) = best_model_state_dict (es w)
       \<and> heap (feed ls m w) = heap w
       \<and> (early_stop (es (feed ls m w)) \<longleftrightarrow>
            early_stop (es w) \<or> (ls \<noteq> [] \<and> patience (es w) \<le> counter (es w) + int (length ls)))"
  using assms
proof (induction ls arbitrary: w)
  case Nil
  then show ?case by simp
next
  case (Cons l ls)
  let ?w = "call l m w"
  have worse: "- l < b + delta (es w)" using Cons.prems(2) by simp
  have step: "es ?w = (es w)\<lparr>counter := counter (es w) + 1,
      early_stop := (if patience (es w) \<le> counter (es w) + 1 then True else early_stop (es w))\<rparr>"
    using Cons.prems(1) worse by (rule call_worse)
  have h: "heap ?w = heap w"
    using Cons.prems(1) worse by (simp add: call_def Let_def)
  have "best_score (es ?w) = Some b" using step Cons.prems(1) by simp
  moreover have "\<forall>l\<in>set ls. - l < b + delta (es ?w)" using Cons.prems(2) step by simp
  ultimately have IH: "counter (es (feed ls m ?w)) = counter (es ?w) + int (length ls)
       \<and> best_score (es (feed ls m ?w)) = Some b
       \<and> best_model_state_dict (es (feed ls m ?w)) = best_model_state_dict (es ?w)
       \<and> heap (feed ls m ?w) = heap ?w
       \<and> (early_stop (es (feed ls m ?w)) \<longleftrightarrow>
            early_stop (es ?w) \<or> (ls \<noteq> [] \<and> patience (es ?w) \<le> counter (es ?w) + int (length ls)))"
    by (rule Cons.IH)
  show ?case using IH step h by (auto split: if_splits)
qed


subsection \<open>Copies in the store\<close>

lemma deepcopy_names: "map fst (fst (deepcopy sd st)) = map fst sd"
  by (induction sd arbitrary: st) (auto simp: Let_def case_prod_beta)

lemma deepcopy_fresh: "fresh (snd (deepcopy sd st)) = fresh st + length sd"
  by (induction sd arbitrary: st) (auto simp: Let_def case_prod_beta)

lemma deepcopy_addrs: "map snd (fst (deepcopy sd st)) = [fresh st ..< fresh st + length sd]"
proof (induction sd arbitrary: st)
  case Nil
  then show ?case by simp
next
  case (Cons x sd)
  obtain name a where x: "x = (name, a)" by (cases x)
  let ?st1 = "st\<lparr>cells := (cells st)(fresh st := cells st a), fresh := Suc (fresh st)\<rparr>"
  have "map snd (fst (deepcopy sd ?st1)) = [Suc (fresh st) ..< Suc (fresh st) + length sd]"
    using Cons.IH [of ?st1] by simp
  moreover have "[fresh st ..< fresh st + length (x # sd)]
      = fresh st # [Suc (fresh st) ..< Suc (fresh st) + length sd]"
    by (simp add: upt_conv_Cons del: upt_Suc)
  ultimately show ?case
    by (simp add: x Let_def case_prod_beta del: upt_Suc)
qed

lemma deepcopy_old_cells: "a < fresh st \<Longrightarrow> cells (snd (deepcopy sd st)) a = cells st a"
proof (induction sd arbitrary: st)
  case Nil
  then show ?case by simp
next
  case (Cons x sd)
  obtain name a' where x: "x = (name, a')" by (cases x)
  let ?st1 = "st\<lparr>cells := (cells st)(fresh st := cells st a'), fresh := Suc (fresh st)\<rparr>"
  have "cells (snd (deepcopy sd ?st1)) a = cells ?st1 a"
    using Cons.prems by (intro Cons.IH) simp
  then show ?case using Cons.prems by (simp add: x Let_def case_prod_beta)
qed

lemma deepcopy_read:
  "\<forall>a\<in>snd ` set sd. a < fresh st \<Longrightarrow>
   read_state_dict (snd (deepcopy sd st)) (fst (deepcopy sd st)) = read_state_dict st sd"
proof (induction sd arbitrary: st)
  case Nil
  then show ?case by (simp add: read_state_dict_def)
next
  case (Cons x sd)
  obtain name a where x: "x = (name, a)" by (cases x)
  let ?st1 = "st\<lparr>cells := (cells st)(fresh st := cells st a), fresh := Suc (fresh st)\<rparr>"
  have old: "\<forall>a\<in>snd ` set sd. a < fresh st" and a: "a < fresh st"
    using Cons.prems by (auto simp: x)
  have "read_state_dict (snd (deepcopy sd ?st1)) (fst (deepcopy sd ?st1)) = read_state_dict ?st1 sd"
    using old by (intro Cons.IH) auto
  moreover have "read_state_dict ?st1 sd = read_state_dict st sd"
    using old by (auto simp: read_state_dict_def)
  moreover have "cells (snd (deepcopy sd ?st1)) (fresh st) = cells st a"
    by (simp add: deepcopy_old_cells)
  ultimately show ?case
    by (simp add: x Let_def case_prod_beta read_state_dict_def)
qed

lemma mutate_other_cells: "a \<notin> fst ` set ws \<Longrightarrow> cells (mutate ws st) a = cells st a"
  by (induction ws arbitrary: st) (auto simp: assign_def)

lemma mutate_read:
  "fst ` set ws \<inter> snd ` set sd = {} \<Longrightarrow> read_state_dict (mutate ws st) sd = read_state_dict st sd"
proof -
  assume d: "fst ` set ws \<inter> snd ` set sd = {}"
  have "cells (mutate ws st) a = cells st a" if "(n, a) \<in> set sd" for n a
  proof (rule mutate_other_cells)
    from that have "a \<in> snd ` set sd" by force
    with d show "a \<notin> fst ` set ws" by blast
  qed
  then show ?thesis by (auto simp: read_state_dict_def)
qed

lemma copy_params_other_cells:
  "c \<notin> snd ` set model \<Longrightarrow> cells (copy_params model sd st) c = cells st c"
  by (induction model arbitrary: st) (auto split: option.splits)

lemma copy_params_param:
  "(n, a) \<in> set model \<Longrightarrow> distinct (map snd model) \<Longrightarrow> map_of sd n = Some b \<Longrightarrow>
   b \<notin> snd ` set model \<Longrightarrow> cells (copy_params model sd st) a = cells st b"
proof (induction model arbitrary: st)
  case Nil
  then show ?case by simp
next
  case (Cons x model)
  obtain n' a' where x: "x = (n', a')" by (cases x)
  let ?st1 = "case map_of sd n' of
          Some b \<Rightarrow> st\<lparr>cells := (cells st)(a' := cells st b)\<rparr>
        | None \<Rightarrow> st"
  have b: "b \<noteq> a'" "b \<notin> snd ` set model" using Cons.prems(4) by (auto simp: x)
  show ?case
  proof (cases "(n, a) = (n', a')")
    case True
    then have "a \<notin> snd ` set model" using Cons.prems(2) by (auto simp: x)
    then have "cells (copy_params model sd ?st1) a = cells ?st1 a"
      by (rule copy_params_other_cells)
    then show ?thesis using True Cons.prems(3) by (simp add: x)
  next
    case False
    then have "(n, a) \<in> set model" using Cons.prems(1) by (auto simp: x)
    then have "cells (copy_params model sd ?st1) a = cells ?st1 b"
      using Cons.prems(2,3) b by (intro Cons.IH) (simp_all add: x)
    moreover have "cells ?st1 b = cells st b" using b by (simp split: option.splits)
    ultimately show ?thesis by (simp add: x)
  qed
qed

lemma copy_params_settled:
  "\<forall>(n, a)\<in>set model. \<forall>b. map_of sd n = Some b \<longrightarrow> cells st a = cells st b \<Longrightarrow>
   copy_params model sd st = st"
proof (induction model arbitrary: st)
  case Nil
  then show ?case by simp
next
  case (Cons x model)
  obtain n a where x: "x = (n, a)" by (cases x)
  have "(case map_of sd n of
          Some b \<Rightarrow> st\<lparr>cells := (cells st)(a := cells st b)\<rparr>
        | None \<Rightarrow> st) = st"
  proof (cases "map_of sd n")
    case None
    then show ?thesis by simp
  next
    case (Some b)
    then have "cells st a = cells st b" using Cons.prems by (auto simp: x)
    then have "(cells st)(a := cells st b) = cells st" by (metis fun_upd_triv)
    then show ?thesis using Some by simp
  qed
  then show ?case using Cons by (simp add: x)
qed

lemma copy_params_snapshot:
  assumes "distinct (map snd model)" and "snd ` set snapshot \<inter> snd ` set model = {}"
    and "(n, a) \<in> set model" and "map_of snapshot n = Some b"
  shows "cells (copy_params model snapshot st) a = cells st b"
    and "cells (copy_params model snapshot st) b = cells st b"
proof -
  have "(n, b) \<in> set snapshot" using assms(4) by (rule map_of_SomeD)
  then have "b \<in> snd ` set snapshot" by force
  then have b: "b \<notin> snd ` set model" using assms(2) by blast
  show "cells (copy_params model snapshot st) a = cells st b"
    using assms(3,1,4) b by (rule copy_params_param)
  show "cells (copy_params model snapshot st) b = cells st b"
    using b by (rule copy_params_other_cells)
qed

lemma copy_params_read_model:
  assumes names: "map fst snapshot = map fst model" and dn: "distinct (map fst model)"
    and da: "distinct (map snd model)" and disj: "snd ` set snapshot \<inter> snd ` set model = {}"
  shows "read_state_dict (copy_params model snapshot st) model = read_state_dict st snapshot"
proof -
  have "length (map fst snapshot) = length (map fst model)" using names by simp
  then have len: "length snapshot = length model" by simp
  have "(\<lambda>(name, a). (name, cells (copy_params model snapshot st) a)) (model ! i)
      = (\<lambda>(name, a). (name, cells st a)) (snapshot ! i)" if i: "i < length model" for i
  proof -
    obtain n a where m: "model ! i = (n, a)" by (cases "model ! i")
    obtain n' b where s: "snapshot ! i = (n', b)" by (cases "snapshot ! i")
    have "map fst snapshot ! i = map fst model ! i" using names by simp
    then have n': "n' = n" using i len by (simp add: m s)
    have "snapshot ! i \<in> set snapshot" using i len by simp
    then have "(n, b) \<in> set snapshot" by (simp add: s n')
    moreover have "distinct (map fst snapshot)" using dn names by simp
    ultimately have lookup: "map_of snapshot n = Some b" by (simp add: map_of_is_SomeI)
    have "model ! i \<in> set model" using i by simp
    then have "(n, a) \<in> set model" by (simp add: m)
    then have "cells (copy_params model snapshot st) a = cells st b"
      using lookup by (rule copy_params_snapshot(1) [OF da disj])
    then show ?thesis by (simp add: m s n')
  qed
  then show ?thesis
    unfolding read_state_dict_def by (intro nth_equalityI) (simp_all add: len)
qed

lemma copy_params_read_snapshot:
  assumes "snd ` set snapshot \<inter> snd ` set model = {}"
  shows "read_state_dict (copy_params model snapshot st) snapshot = read_state_dict st snapshot"
proof -
  have "cells (copy_params model snapshot st) b = cells st b" if "(n, b) \<in> set snapshot" for n b
  proof (rule copy_params_other_cells)
    from that have "b \<in> snd ` set snapshot" by force
    with assms show "b \<notin> snd ` set model" by blast
  qed
  then show ?thesis by (auto simp: read_state_dict_def)
qed

lemma load_state_dict_ok:
  assumes "map fst snapshot = map fst model" and "size_mismatch model snapshot st = []"
  shows "load_state_dict model snapshot st = Inr (copy_params model snapshot st)"
  using assms by (simp add: load_state_dict_def missing_keys_def unexpected_keys_def)

lemma copy_params_twice:
  assumes "distinct (map snd model)" and "snd ` set snapshot \<inter> snd ` set model = {}"
  shows "copy_params model snapshot (copy_params model snapshot st) = copy_params model snapshot st"
    and "size_mismatch model snapshot (copy_params model snapshot st) = []"
proof -
  let ?st = "copy_params model snapshot st"
  have eq: "cells ?st a = cells ?st b" if "(n, a) \<in> set model" and "map_of snapshot n = Some b"
    for n a b
    using copy_params_snapshot [OF assms that] by simp
  then show "copy_params model snapshot ?st = ?st"
    by (intro copy_params_settled) auto
  show "size_mismatch model snapshot ?st = []"
    using eq by (auto simp: size_mismatch_def filter_empty_conv split: option.splits)
qed

subsection \<open>Dropping correlated columns\<close>
























subsection \<open>Slicing a feature vector into channels\<close>

lemma concat_chunks: "concat (map (\<lambda>r. take n (drop (r * n) xs)) [0..<m]) = take (m * n) xs"
proof (induction m)
  case 0
  then show ?case by simp
next
  case (Suc m)
  have "take (m * n + n) xs = take (m * n) xs @ take n (drop (m * n) xs)"
    by (rule take_add)
  moreover have "Suc m * n = m * n + n" by simp
  ultimately have "take (Suc m * n) xs = take (m * n) xs @ take n (drop (m * n) xs)"
    by (simp only:)
  with Suc show ?case by (simp del: mult_Suc)
qed

lemma concat_rows: "length xs = n * n \<Longrightarrow> concat (map (\<lambda>r. take n (drop (r * n) xs)) [0..<n]) = xs"
  by (simp add: concat_chunks)

lemma channel_features_cases:
  "channel_features fv c fpc =
     (if c * fpc + fpc \<le> length fv then take fpc (drop (c * fpc) fv)
      else if c * fpc < length fv
        then drop (c * fpc) fv @ replicate (fpc - (length fv - c * fpc)) 0
      else replicate fpc 0)"
proof -
  define s where "s = c * fpc"
  have pos: "int (length fv) - int s > 0 \<longleftrightarrow> s < length fv" by linarith
  have n: "nat (int fpc - (int (length fv) - int s)) = fpc - (length fv - s)" if "s < length fv"
    using that by linarith
  have "channel_features fv c fpc =
     (if s + fpc \<le> length fv then take (s + fpc - s) (drop s fv)
      else if int (length fv) - int s > 0
        then drop s fv @ replicate (nat (int fpc - (int (length fv) - int s))) 0
      else replicate fpc 0)"
    unfolding channel_features_def Let_def s_def by (rule refl)
  also have "\<dots> = (if s + fpc \<le> length fv then take fpc (drop s fv)
      else if s < length fv
        then drop s fv @ replicate (fpc - (length fv - s)) 0
      else replicate fpc 0)"
    using pos n by simp
  finally show ?thesis by (simp only: s_def)
qed

lemma length_channel_features: "length (channel_features fv c fpc) = fpc"
  by (simp add: channel_features_cases)

lemma channel_features_padded:
  "c < num_channels \<Longrightarrow>
   channel_features fv c fpc = take fpc (drop (c * fpc) (zero_padded fv (num_channels * fpc)))"
proof -
  assume c: "c < num_channels"
  define s where "s = c * fpc"
  define total where "total = num_channels * fpc"
  have "Suc c * fpc \<le> num_channels * fpc" using c by (intro mult_le_mono1) simp
  then have total: "s + fpc \<le> total" by (simp add: s_def total_def)
  consider (full) "s + fpc \<le> length fv" | (part) "s < length fv" "\<not> s + fpc \<le> length fv"
    | (none) "\<not> s < length fv"
    by linarith
  then have "(if s + fpc \<le> length fv then take fpc (drop s fv)
      else if s < length fv
        then drop s fv @ replicate (fpc - (length fv - s)) 0
      else replicate fpc 0) = take fpc (drop s (zero_padded fv total))"
  proof cases
    case full
    then show ?thesis using total by (simp add: zero_padded_def drop_take min_def)
  next
    case part
    then show ?thesis using total by (simp add: zero_padded_def drop_take min_def)
  next
    case none
    then show ?thesis using total by (simp add: zero_padded_def drop_take min_def)
  qed
  then show ?thesis by (simp only: channel_features_cases s_def total_def)
qed

lemma channels_loop_ok:
  "image_size * image_size = fpc \<Longrightarrow>
   channels_loop fv fpc image_size cs channels
     = Inr (channels @ map (\<lambda>c. square (channel_features fv c fpc) image_size) cs)"
  by (induction cs arbitrary: channels)
     (simp_all add: reshape_def length_channel_features square_def)

lemma flatten_squares:
  assumes "image_size * image_size = fpc"
  shows "flatten (map (\<lambda>c. square (channel_features fv c fpc) image_size) cs)
       = concat (map (\<lambda>c. channel_features fv c fpc) cs)"
proof -
  have "concat (square (channel_features fv c fpc) image_size) = channel_features fv c fpc" for c
    unfolding square_def using assms by (intro concat_rows) (simp add: length_channel_features)
  then show ?thesis by (simp add: flatten_def comp_def)
qed

lemma concat_channel_features:
  "concat (map (\<lambda>c. channel_features fv c fpc) [0..<num_channels])
     = zero_padded fv (num_channels * fpc)"
proof -
  let ?z = "zero_padded fv (num_channels * fpc)"
  have "map (\<lambda>c. channel_features fv c fpc) [0..<num_channels]
      = map (\<lambda>c. take fpc (drop (c * fpc) ?z)) [0..<num_channels]"
    by (rule map_cong) (simp_all add: channel_features_padded)
  then have "concat (map (\<lambda>c. channel_features fv c fpc) [0..<num_channels])
      = take (num_channels * fpc) ?z"
    by (simp only: concat_chunks)
  moreover have "length ?z = num_channels * fpc" by (simp add: zero_padded_def)
  ultimately show ?thesis by simp
qed

lemma no_channels_raises: "features_to_multichannel_image fv 0 fpc isz = Inl ValueError"
  by (simp add: features_to_multichannel_image_def np_stack_def)


subsection \<open>Autograd bookkeeping\<close>

lemma enhancement_detached:
  "leaves (feature_masking_enhancement st adaptive_masker original_imgs frozen_unet) = {}"
  by (simp add: feature_masking_enhancement_def clamp_def Let_def)

lemma train_step_masker:
  assumes "set (parameters adaptive_masker) \<inter> set (parameters classifier) = {}"
    and "\<forall>a\<in>set (parameters adaptive_masker). grad st a = None"
    and "train_step set_to_none update gradient crit adaptive_masker classifier frozen_unet
           imgs labels st = Inr st'"
    and "a \<in> set (parameters adaptive_masker)"
  shows "weights st' a = weights st a \<and> grad st' a = None"
proof -
  let ?ps = "parameters classifier @ parameters adaptive_masker"
  let ?st1 = "zero_grad set_to_none ?ps st"
  let ?enh = "feature_masking_enhancement ?st1 adaptive_masker \<lparr>data = imgs, leaves = {}\<rparr>
                  frozen_unet"
  let ?preds = "apply_module True ?st1 classifier ?enh"
  let ?loss = "\<lparr>data = crit (data ?preds) labels, leaves = leaves ?preds\<rparr>"
  have l: "leaves ?loss \<subseteq> set (parameters classifier)"
    by (auto simp: apply_module_def enhancement_detached)
  obtain st2 where b: "backward gradient ?loss ?st1 = Inr st2"
    and s: "st' = opt_step update ?ps st2"
    using assms(3) by (auto simp: train_step_def Let_def split: sum.splits)
  have st2: "st2 = ?st1\<lparr>grad := (\<lambda>a. if a \<in> leaves ?loss
                                 then Some (accumulate (grad ?st1 a) (gradient a))
                                 else grad ?st1 a)\<rparr>"
    using b by (simp add: backward_def split: if_splits)
  have "a \<notin> set (parameters classifier)" using assms(1,4) by blast
  then have "a \<notin> leaves ?loss" using l by blast
  moreover have "grad ?st1 a = None" using assms(2,4) by (simp add: zero_grad_def)
  ultimately have "grad st2 a = None" and "weights st2 a = weights st a"
    by (simp_all add: st2 zero_grad_def)
  then show ?thesis by (simp add: s opt_step_def)
qed

lemma train_step_classifier:
  assumes "train_step set_to_none update gradient crit adaptive_masker classifier frozen_unet
           imgs labels st = Inr st'"
    and "a \<in> set (parameters classifier)" and "requires_grad st a"
  shows "\<exists>g. grad st' a = Some g \<and> weights st' a = map_option (\<lambda>w. update a w g) (weights st a)"
proof -
  let ?ps = "parameters classifier @ parameters adaptive_masker"
  let ?st1 = "zero_grad set_to_none ?ps st"
  let ?enh = "feature_masking_enhancement ?st1 adaptive_masker \<lparr>data = imgs, leaves = {}\<rparr>
                  frozen_unet"
  let ?preds = "apply_module True ?st1 classifier ?enh"
  let ?loss = "\<lparr>data = crit (data ?preds) labels, leaves = leaves ?preds\<rparr>"
  have l: "leaves ?loss = {a \<in> set (parameters classifier). requires_grad st a}"
    by (auto simp: apply_module_def enhancement_detached zero_grad_def)
  obtain st2 where b: "backward gradient ?loss ?st1 = Inr st2"
    and s: "st' = opt_step update ?ps st2"
    using assms(1) by (auto simp: train_step_def Let_def split: sum.splits)
  have st2: "st2 = ?st1\<lparr>grad := (\<lambda>a. if a \<in> leaves ?loss
                                 then Some (accumulate (grad ?st1 a) (gradient a))
                                 else grad ?st1 a)\<rparr>"
    using b by (simp add: backward_def split: if_splits)
  have "a \<in> leaves ?loss" using assms(2,3) by (simp only: l) simp
  then have "grad st2 a = Some (accumulate (grad ?st1 a) (gradient a))"
    and "weights st2 a = weights st a"
    by (simp_all add: st2 zero_grad_def)
  then show ?thesis using assms(2) by (simp add: s opt_step_def)
qed

lemma train_batches_masker:
  assumes "set (parameters adaptive_masker) \<inter> set (parameters classifier) = {}"
    and "\<forall>a\<in>set (parameters adaptive_masker). grad st a = None"
    and "train_batches set_to_none update gradient crit adaptive_masker classifier frozen_unet
           batch_idx train_loader st = Inr st'"
  shows "\<forall>a\<in>set (parameters adaptive_masker). weights st' a = weights st a \<and> grad st' a = None"
  using assms(2,3)
proof (induction train_loader arbitrary: st batch_idx)
  case Nil
  then show ?case by simp
next
  case (Cons batch train_loader)
  obtain imgs labels where batch: "batch = (imgs, labels)" by (cases batch)
  obtain st1 where step: "train_step set_to_none (update batch_idx) (gradient batch_idx) crit
             adaptive_masker classifier frozen_unet imgs labels st = Inr st1"
    and rest: "train_batches set_to_none update gradient crit adaptive_masker classifier
            frozen_unet (Suc batch_idx) train_loader st1 = Inr st'"
    using Cons.prems(2) by (auto simp: batch split: sum.splits)
  have one: "\<forall>a\<in>set (parameters adaptive_masker). weights st1 a = weights st a \<and> grad st1 a = None"
    using train_step_masker [OF assms(1) Cons.prems(1) step] by blast
  then have "\<forall>a\<in>set (parameters adaptive_masker). grad st1 a = None" by blast
  then have "\<forall>a\<in>set (parameters adaptive_masker).
      weights st' a = weights st1 a \<and> grad st' a = None"
    using rest by (rule Cons.IH)
  with one show ?case by simp
qed


subsection \<open>Cross-entropy\<close>

lemma nth_le_sum_list:
  fixes xs :: "real list"
  shows "\<forall>x\<in>set xs. 0 \<le> x \<Longrightarrow> i < length xs \<Longrightarrow> xs ! i \<le> sum_list xs"
proof (induction xs arbitrary: i)
  case Nil
  then show ?case by simp
next
  case (Cons x xs)
  have nonneg: "0 \<le> sum_list xs" using Cons.prems(1) by (intro sum_list_nonneg) simp
  show ?case
  proof (cases i)
    case 0
    then show ?thesis using nonneg by simp
  next
    case (Suc j)
    then have "xs ! j \<le> sum_list xs" using Cons by simp
    then show ?thesis using Suc Cons.prems(1) by simp
  qed
qed

lemma sample_cross_entropy_nonneg:
  assumes "t = - 100 \<or> (0 \<le> t \<and> t < int (length row))"
  shows "0 \<le> sample_cross_entropy row t"
proof (cases "t = - 100")
  case True
  then show ?thesis by (simp add: sample_cross_entropy_def)
next
  case False
  then have t: "nat t < length row" using assms by linarith
  then have "map exp row ! nat t \<le> sum_list (map exp row)"
    by (intro nth_le_sum_list) simp_all
  then have "exp (row ! nat t) \<le> sum_list (map exp row)" using t by simp
  then have "ln (exp (row ! nat t)) \<le> ln (sum_list (map exp row))"
    by (intro ln_mono) (simp_all add: less_le_trans [OF exp_gt_zero])
  then show ?thesis using False by (simp add: sample_cross_entropy_def)
qed

lemma cross_entropy_nonneg:
  assumes "cross_entropy inputs targets = Inr ce"
  shows "\<forall>c\<in>set ce. 0 \<le> c"
proof -
  have ok: "\<not> list_ex (\<lambda>(row, t). t \<noteq> - 100 \<and> (t < 0 \<or> int (length row) \<le> t))
                (zip inputs targets)"
    and ce: "ce = map (\<lambda>(row, t). sample_cross_entropy row t) (zip inputs targets)"
    using assms by (auto simp: cross_entropy_def split: if_splits)
  have "0 \<le> sample_cross_entropy row t" if "(row, t) \<in> set (zip inputs targets)" for row t
    using ok that by (intro sample_cross_entropy_nonneg) (auto simp: list_ex_iff)
  then show ?thesis by (auto simp: ce)
qed

lemma torch_pow_focal:
  "0 \<le> c \<Longrightarrow> 0 < g \<Longrightarrow> torch_pow (1 - exp (- c)) g = Some ((1 - exp (- c)) powr g)"
  by (cases "c = 0") (simp_all add: torch_pow_def)

lemma zip3_map:
  "length ts = length ce \<Longrightarrow>
   map f (zip (map (\<lambda>t. a) ts) (zip (map h ce) ce)) = map (\<lambda>c. f (a, h c, c)) ce"
  by (induction ts ce rule: list_induct2) simp_all

lemma length_cross_entropy:
  "cross_entropy inputs targets = Inr ce \<Longrightarrow> length targets = length ce"
  by (auto simp: cross_entropy_def split: if_splits)

lemma tensor_mean_Some:
  "tensor_mean (map Some xs) = (if xs = [] then None else Some (sum_list xs / real (length xs)))"
  by (simp add: tensor_mean_def list_ex_iff comp_def)

section \<open>The claims\<close>

subsection \<open>C1: what a Phase-2 step does to the masker\<close>

text \<open>
  C1. The specification has the masker trained jointly with the classifier in Phase 2,
  and the optimizer is indeed built over both parameter lists. But every step computes
  the mask inside \<open>feature_masking_enhancement\<close>, under \<open>torch.no_grad()\<close>, so the loss
  reaches no parameter of the masker. Stated for the code as it is: the masker's
  parameters start without gradients, and then, whatever the update rule, the gradients
  and the batch, a step that returns leaves every parameter of the masker with the value
  it had and still without gradient, while every classifier parameter that requires grad
  receives a gradient and is updated by it; so a whole epoch of steps leaves the masker
  as it was. (The masker and the classifier share no parameter.)
\<close>

theorem masker_untouched_by_train_step:
  assumes "set (parameters adaptive_masker) \<inter> set (parameters classifier) = {}"
    and "\<forall>a\<in>set (parameters adaptive_masker). grad st a = None"
  shows "(train_step set_to_none update gradient crit adaptive_masker classifier frozen_unet
            imgs labels st = Inr st' \<longrightarrow>
          (\<forall>a\<in>set (parameters adaptive_masker). weights st' a = weights st a \<and> grad st' a = None)
          \<and> (\<forall>a\<in>set (parameters classifier). requires_grad st a \<longrightarrow>
                (\<exists>g. grad st' a = Some g
                   \<and> weights st' a = map_option (\<lambda>w. update a w g) (weights st a))))
     \<and> (train_batches set_to_none updates gradients crit adaptive_masker classifier frozen_unet
            0 train_loader st = Inr st'' \<longrightarrow>
          (\<forall>a\<in>set (parameters adaptive_masker). weights st'' a = weights st a
             \<and> grad st'' a = None))"
proof -
  have one: "\<forall>a\<in>set (parameters adaptive_masker). weights st' a = weights st a \<and> grad st' a = None"
    if "train_step set_to_none update gradient crit adaptive_masker classifier frozen_unet
            imgs labels st = Inr st'"
    using train_step_masker [OF assms that] by blast
  have clf: "\<forall>a\<in>set (parameters classifier). requires_grad st a \<longrightarrow>
                (\<exists>g. grad st' a = Some g
                   \<and> weights st' a = map_option (\<lambda>w. update a w g) (weights st a))"
    if "train_step set_to_none update gradient crit adaptive_masker classifier frozen_unet
            imgs labels st = Inr st'"
    using train_step_classifier [OF that] by blast
  have all: "\<forall>a\<in>set (parameters adaptive_masker). weights st'' a = weights st a
             \<and> grad st'' a = None"
    if "train_batches set_to_none updates gradients crit adaptive_masker classifier frozen_unet
            0 train_loader st = Inr st''"
    using assms that by (rule train_batches_masker)
  from one clf all show ?thesis by blast
qed

text \<open>
  One step on concrete numbers: the classifier's weight moves from 1 to 0, the four
  parameters of the masker stay at 1.
\<close>

theorem masker_untouched_by_train_step_witness:
  "\<exists>st'. demo_step = Inr st'
     \<and> weights st' 0 = Some [1] \<and> weights st' 1 = Some [1]
     \<and> weights st' 2 = Some [1] \<and> weights st' 3 = Some [1]
     \<and> grad st' 0 = None \<and> grad st' 1 = None \<and> grad st' 2 = None \<and> grad st' 3 = None
     \<and> weights st' 4 = Some [0]"
proof -
  have disj: "set (parameters demo_masker_module) \<inter> set (parameters demo_classifier) = {}"
    by (simp add: demo_masker_module_def demo_classifier_def)
  have none: "\<forall>a\<in>set (parameters demo_masker_module). grad demo_autograd a = None"
    by (simp add: demo_autograd_def)
  obtain st' where run: "train_step True (\<lambda>a w g. map (\<lambda>(u, v). u - v) (zip w g)) (\<lambda>a. [1])
       (\<lambda>p l. [sum_list p]) demo_masker_module demo_classifier demo_unet [1/2] [0] demo_autograd
         = Inr st'"
    by (simp add: train_step_def backward_def apply_module_def demo_classifier_def
        demo_autograd_def zero_grad_def Let_def)
  have "(\<forall>a\<in>set (parameters demo_masker_module).
            weights st' a = weights demo_autograd a \<and> grad st' a = None)
     \<and> (\<forall>a\<in>set (parameters demo_classifier). requires_grad demo_autograd a \<longrightarrow>
          (\<exists>g. grad st' a = Some g
             \<and> weights st' a = map_option (\<lambda>w. map (\<lambda>(u, v). u - v) (zip w g))
                                 (weights demo_autograd a)))"
    using masker_untouched_by_train_step [OF disj none, THEN conjunct1, THEN mp, OF run] .
  then have m: "weights st' 0 = Some [1] \<and> weights st' 1 = Some [1]
     \<and> weights st' 2 = Some [1] \<and> weights st' 3 = Some [1]
     \<and> grad st' 0 = None \<and> grad st' 1 = None \<and> grad st' 2 = None \<and> grad st' 3 = None"
    by (simp add: demo_masker_module_def demo_autograd_def)
  have c: "weights st' 4 = Some [0]"
    using run
    by (auto simp: train_step_def backward_def apply_module_def demo_classifier_def
        demo_masker_module_def demo_autograd_def zero_grad_def opt_step_def accumulate_def
        feature_masking_enhancement_def clamp_def Let_def split: if_splits)
  from run m c show ?thesis by (auto simp: demo_step_def)
qed

subsection \<open>C2: the feature vector laid out as an image\<close>

text \<open>
  C2. With \<open>image_size\<close> squared equal to \<open>features_per_channel\<close> and at least one channel,
  \<open>features_to_multichannel_image\<close> raises nothing on any feature vector and returns
  \<open>num_channels\<close> channels of \<open>image_size\<close> rows of \<open>image_size\<close> entries. Flattened
  channel-major, the result is the vector cut and zero-padded to
  \<open>total_features = num_channels * features_per_channel\<close> entries: the whole vector followed
  by zeros when it has at most \<open>total_features\<close> entries, its first \<open>total_features\<close>
  entries when it has more. (An image has at least one channel: with none there is
  nothing to stack, see \<open>no_channels_raises\<close>.)
\<close>

theorem features_to_multichannel_image_flatten:
  assumes "image_size * image_size = features_per_channel" and "0 < num_channels"
  shows "\<exists>img. features_to_multichannel_image fv num_channels features_per_channel image_size
               = Inr img
     \<and> length img = num_channels
     \<and> (\<forall>channel\<in>set img. length channel = image_size
            \<and> (\<forall>row\<in>set channel. length row = image_size))
     \<and> flatten img = zero_padded fv (num_channels * features_per_channel)
     \<and> (length fv \<le> num_channels * features_per_channel \<longrightarrow>
          flatten img
            = fv @ replicate (num_channels * features_per_channel - length fv) 0)
     \<and> (num_channels * features_per_channel < length fv \<longrightarrow>
          flatten img = take (num_channels * features_per_channel) fv)"
proof -
  let ?img = "map (\<lambda>c. square (channel_features fv c features_per_channel) image_size)
                [0..<num_channels]"
  have loop: "channels_loop fv features_per_channel image_size [0..<num_channels] [] = Inr ?img"
    using assms(1) by (simp add: channels_loop_ok)
  have "?img \<noteq> []" using assms(2) by simp
  then have res: "features_to_multichannel_image fv num_channels features_per_channel image_size
      = Inr ?img"
    by (simp add: features_to_multichannel_image_def loop np_stack_def)
  have shape: "\<forall>channel\<in>set ?img. length channel = image_size
            \<and> (\<forall>row\<in>set channel. length row = image_size)"
  proof -
    have "min (image_size * image_size - r * image_size) image_size = image_size"
      if "r < image_size" for r
    proof -
      have "Suc r * image_size \<le> image_size * image_size"
        using that by (intro mult_le_mono1) simp
      then show ?thesis by simp
    qed
    then show ?thesis using assms(1) by (auto simp: square_def length_channel_features)
  qed
  have flat: "flatten ?img = zero_padded fv (num_channels * features_per_channel)"
    using assms(1) by (simp add: flatten_squares concat_channel_features)
  show ?thesis using res shape flat by (simp add: zero_padded_def)
qed

text \<open>
  Six features in two 2 x 2 channels are padded with two zeros; of ten features the first
  eight are kept.
\<close>

theorem features_to_multichannel_image_flatten_witness:
  "features_to_multichannel_image [1, 2, 3, 4, 5, 6] 2 4 2
     = Inr [[[1, 2], [3, 4]], [[5, 6], [0, 0]]]
   \<and> flatten [[[1, 2], [3, 4]], [[5, 6], [0, 0]]] = [1, 2, 3, 4, 5, 6, 0, 0]
   \<and> (\<exists>img. features_to_multichannel_image [1, 2, 3, 4, 5, 6, 7, 8, 9, 10] 2 4 2 = Inr img
          \<and> flatten img = [1, 2, 3, 4, 5, 6, 7, 8])"
proof -
  have sq: "(2::nat) * 2 = 4" and pos: "(0::nat) < 2" by simp_all
  have a: "features_to_multichannel_image [1, 2, 3, 4, 5, 6] 2 4 2
     = Inr [[[1, 2], [3, 4]], [[5, 6], [0, 0]]]"
    by (simp add: features_to_multichannel_image_def channel_features_def reshape_def
        np_stack_def Let_def upt_conv_Cons numeral_eq_Suc)
  have b: "flatten [[[1, 2], [3, 4]], [[5, 6], [0, 0]]] = [1, 2, 3, 4, 5, 6, 0, 0]"
  proof -
    obtain img where "features_to_multichannel_image [1, 2, 3, 4, 5, 6] 2 4 2 = Inr img"
      and "length [1, 2, 3, 4, 5, 6 :: real] \<le> 2 * 4 \<longrightarrow>
           flatten img = [1, 2, 3, 4, 5, 6] @ replicate (2 * 4 - length [1, 2, 3, 4, 5, 6 :: real]) 0"
      using features_to_multichannel_image_flatten [OF sq pos, of "[1, 2, 3, 4, 5, 6]"]
      by blast
    then have "flatten [[[1, 2], [3, 4]], [[5, 6], [0, 0]]]
        = [1, 2, 3, 4, 5, 6] @ replicate (2 * 4 - length [1, 2, 3, 4, 5, 6 :: real]) 0"
      using a by simp
    also have "\<dots> = [1, 2, 3, 4, 5, 6, 0, 0]" by (simp add: numeral_eq_Suc)
    finally show ?thesis .
  qed
  have c: "\<exists>img. features_to_multichannel_image [1, 2, 3, 4, 5, 6, 7, 8, 9, 10] 2 4 2 = Inr img
          \<and> flatten img = [1, 2, 3, 4, 5, 6, 7, 8]"
    using features_to_multichannel_image_flatten
      [OF sq pos, of "[1, 2, 3, 4, 5, 6, 7, 8, 9, 10]"]
    by (auto simp: zero_padded_def)
  from a b c show ?thesis by simp
qed

subsection \<open>C3: the mask and its range\<close>

text \<open>
  C3, in float32. For a module shaped for \<open>n\<close> channels and every batch of n x h x w
  images, \<open>forward\<close> returns a mask of the same shape. Its entry at (b, c, i, j) is the
  sigmoid of \<open>(x * channel_scale + bias) / temperature\<close> at that entry, times the sigmoid
  of the c-th output of the linear layer applied to the plane means of image b (the mean
  of a plane being its sum over h * w). An entry is \<open>nan\<close> exactly when one of the two
  arguments of \<open>sigmoid\<close> is; every other entry is a number of the closed interval from 0
  to 1. The first argument is not \<open>nan\<close> when the input entry and the parameters are
  finite and the temperature is not zero.
\<close>

theorem adaptive_mask_forward:
  assumes "masker_shaped self n" and "batch_shaped x n h w"
  shows "\<exists>mask. forward self x = Inr mask
     \<and> length mask = length x \<and> batch_shaped mask n h w
     \<and> (\<forall>b<length x. \<forall>c<n. \<forall>i<h. \<forall>j<w.
          (let scaled = fdiv binary32
                 (fadd binary32 (fmul binary32 (x ! b ! c ! i ! j) (channel_scale self ! c))
                    (bias self ! c))
                 (temperature self);
               fc = fadd binary32
                 (fsum binary32
                    (map (\<lambda>k. fmul binary32 (fc_weight self ! c ! k) (adaptive_avg_pool (x ! b) ! k))
                       [0..<n]))
                 (fc_bias self ! c)
           in mask ! b ! c ! i ! j = fmul binary32 (sigmoid scaled) (sigmoid fc)
              \<and> (mask ! b ! c ! i ! j = NaN \<longleftrightarrow> scaled = NaN \<or> fc = NaN)
              \<and> (mask ! b ! c ! i ! j = NaN
                  \<or> (\<exists>u. mask ! b ! c ! i ! j = Finite False u \<and> 0 \<le> u \<and> u \<le> 1))
              \<and> (is_finite (x ! b ! c ! i ! j) \<and> is_finite (channel_scale self ! c)
                  \<and> is_finite (bias self ! c) \<and> is_finite (temperature self)
                  \<and> fp_nonzero (temperature self) \<longrightarrow> scaled \<noteq> NaN)))
     \<and> (\<forall>b<length x. \<forall>k<n.
          adaptive_avg_pool (x ! b) ! k
            = fdiv binary32 (fsum binary32 (concat (x ! b ! k)))
                (fp_round binary32 False (real (h * w))))"
proof -
  let ?mask = "map (forward_image self) x"
  have shape: "length (x ! b) = n" "\<And>c. c < n \<Longrightarrow> length (x ! b ! c) = h"
    "\<And>c i. c < n \<Longrightarrow> i < h \<Longrightarrow> length (x ! b ! c ! i) = w" if "b < length x" for b
    using assms(2) that by (simp_all add: batch_shaped_nth)
  have "\<not> list_ex (\<lambda>img. length img \<noteq> masker_channels self) x"
    using assms(1,2) by (auto simp: batch_shaped_def masker_shaped_def masker_channels_def
        list_ex_iff list_all_iff)
  then have res: "forward self x = Inr ?mask"
    by (simp add: forward_def)
  have out_shape: "batch_shaped ?mask n h w"
    unfolding batch_shaped_nth
    using shape
    by (simp add: length_forward_image [OF assms(1)] length_forward_image_plane [OF assms(1)]
        length_forward_image_row [OF assms(1)])
  have formula: "?mask ! b ! c ! i ! j
      = fmul binary32
          (sigmoid (fdiv binary32
             (fadd binary32 (fmul binary32 (x ! b ! c ! i ! j) (channel_scale self ! c))
                (bias self ! c))
             (temperature self)))
          (sigmoid (fadd binary32
             (fsum binary32
                (map (\<lambda>k. fmul binary32 (fc_weight self ! c ! k) (adaptive_avg_pool (x ! b) ! k))
                   [0..<n]))
             (fc_bias self ! c)))"
    if "b < length x" "c < n" "i < h" "j < w" for b c i j
    using that shape [OF that(1)]
    by (simp add: forward_image_nth [OF assms(1)] global_fc_nth [OF assms(1)])
  have range: "in_unit v \<Longrightarrow> \<exists>u. v = Finite False u \<and> 0 \<le> u \<and> u \<le> 1" for v
    by (cases v) (simp_all add: in_unit_def)
  have entries: "\<forall>b<length x. \<forall>c<n. \<forall>i<h. \<forall>j<w.
          (let scaled = fdiv binary32
                 (fadd binary32 (fmul binary32 (x ! b ! c ! i ! j) (channel_scale self ! c))
                    (bias self ! c))
                 (temperature self);
               fc = fadd binary32
                 (fsum binary32
                    (map (\<lambda>k. fmul binary32 (fc_weight self ! c ! k) (adaptive_avg_pool (x ! b) ! k))
                       [0..<n]))
                 (fc_bias self ! c)
           in ?mask ! b ! c ! i ! j = fmul binary32 (sigmoid scaled) (sigmoid fc)
              \<and> (?mask ! b ! c ! i ! j = NaN \<longleftrightarrow> scaled = NaN \<or> fc = NaN)
              \<and> (?mask ! b ! c ! i ! j = NaN
                  \<or> (\<exists>u. ?mask ! b ! c ! i ! j = Finite False u \<and> 0 \<le> u \<and> u \<le> 1))
              \<and> (is_finite (x ! b ! c ! i ! j) \<and> is_finite (channel_scale self ! c)
                  \<and> is_finite (bias self ! c) \<and> is_finite (temperature self)
                  \<and> fp_nonzero (temperature self) \<longrightarrow> scaled \<noteq> NaN))"
    unfolding Let_def
  proof (intro allI impI)
    fix b c i j
    assume b: "b < length x" and c: "c < n" and i: "i < h" and j: "j < w"
    let ?z = "fdiv binary32
         (fadd binary32 (fmul binary32 (x ! b ! c ! i ! j) (channel_scale self ! c))
            (bias self ! c))
         (temperature self)"
    let ?g = "fadd binary32
         (fsum binary32
            (map (\<lambda>k. fmul binary32 (fc_weight self ! c ! k) (adaptive_avg_pool (x ! b) ! k))
               [0..<n]))
         (fc_bias self ! c)"
    have f: "?mask ! b ! c ! i ! j = fmul binary32 (sigmoid ?z) (sigmoid ?g)"
      using b c i j by (rule formula)
    have n: "?mask ! b ! c ! i ! j = NaN \<longleftrightarrow> ?z = NaN \<or> ?g = NaN"
      unfolding f by (rule mask_entry(1))
    have u: "?mask ! b ! c ! i ! j = NaN
        \<or> (\<exists>u. ?mask ! b ! c ! i ! j = Finite False u \<and> 0 \<le> u \<and> u \<le> 1)"
      unfolding f using mask_entry(2) [of ?z ?g] range by blast
    have s: "is_finite (x ! b ! c ! i ! j) \<and> is_finite (channel_scale self ! c)
          \<and> is_finite (bias self ! c) \<and> is_finite (temperature self)
          \<and> fp_nonzero (temperature self) \<longrightarrow> ?z \<noteq> NaN"
      using scaled_not_NaN by blast
    show "?mask ! b ! c ! i ! j = fmul binary32 (sigmoid ?z) (sigmoid ?g)
        \<and> (?mask ! b ! c ! i ! j = NaN \<longleftrightarrow> ?z = NaN \<or> ?g = NaN)
        \<and> (?mask ! b ! c ! i ! j = NaN
            \<or> (\<exists>u. ?mask ! b ! c ! i ! j = Finite False u \<and> 0 \<le> u \<and> u \<le> 1))
        \<and> (is_finite (x ! b ! c ! i ! j) \<and> is_finite (channel_scale self ! c)
            \<and> is_finite (bias self ! c) \<and> is_finite (temperature self)
            \<and> fp_nonzero (temperature self) \<longrightarrow> ?z \<noteq> NaN)"
      using f n u s by (intro conjI)
  qed
  have pool: "\<forall>b<length x. \<forall>k<n. adaptive_avg_pool (x ! b) ! k
      = fdiv binary32 (fsum binary32 (concat (x ! b ! k))) (fp_round binary32 False (real (h * w)))"
  proof (intro allI impI)
    fix b k
    assume b: "b < length x" and k: "k < n"
    have "length (concat (x ! b ! k)) = h * w"
      using shape [OF b] k by (intro plane_size) simp_all
    then show "adaptive_avg_pool (x ! b) ! k
      = fdiv binary32 (fsum binary32 (concat (x ! b ! k))) (fp_round binary32 False (real (h * w)))"
      using shape(1) [OF b] k by (simp add: adaptive_avg_pool_def)
  qed
  have "length ?mask = length x" by simp
  with res out_shape entries pool show ?thesis by blast
qed

text \<open>
  A masker with temperature 2, scale 2, bias -512 and linear layer \<open>g - 256\<close> on the plane
  0, 256, 256, 512: the mean is 256, the second sigmoid one half, the first 0, one half and
  1. With temperature zero the entry of input 0 is \<open>nan\<close> (zero over zero) and the entry
  of input 512 is 1 (the sigmoid of infinity).
\<close>

theorem adaptive_mask_forward_witness:
  "forward demo_masker demo_batch
     = Inr [[[[Finite False 0, Finite False (1 / 4)], [Finite False (1 / 4), Finite False (1 / 2)]]]]
   \<and> (\<exists>mask. forward demo_masker demo_batch = Inr mask \<and> batch_shaped mask 1 2 2
         \<and> mask ! 0 ! 0 ! 0 ! 0 = Finite False 0 \<and> mask ! 0 ! 0 ! 1 ! 1 = Finite False (1 / 2))
   \<and> forward zero_temperature_masker zero_temperature_batch = Inr [[[[NaN, Finite False 1]]]]
   \<and> (\<exists>mask. forward zero_temperature_masker zero_temperature_batch = Inr mask
         \<and> batch_shaped mask 1 1 2 \<and> mask ! 0 ! 0 ! 0 ! 0 = NaN)"
proof -
  have low: "sigmoid (Finite True 256) = Finite False 0" by (rule sigmoid_saturates_low) simp
  have high: "sigmoid (Finite False 256) = Finite False 1" by (rule sigmoid_saturates_high) simp
  have inf: "sigmoid (Infinite False) = Finite False 1"
    by (simp add: sigmoid_def fp_one_def val_def fp_round_def round32_exact Let_def)
  have res: "forward demo_masker demo_batch
     = Inr [[[[Finite False 0, Finite False (1 / 4)], [Finite False (1 / 4), Finite False (1 / 2)]]]]"
    by (simp add: forward_def forward_image_def global_fc_def fc_linear_def adaptive_avg_pool_def
        masker_channels_def demo_masker_def demo_batch_def Let_def
        fsum_def fp_one_def val_def fp_round_def round32_exact low high sigmoid_zero)
  have m: "masker_shaped demo_masker 1"
    by (simp add: masker_shaped_def demo_masker_def)
  have x: "batch_shaped demo_batch 1 2 2"
    by (simp add: batch_shaped_def demo_batch_def)
  obtain mask where mask: "forward demo_masker demo_batch = Inr mask"
    and shaped: "batch_shaped mask 1 2 2"
    using adaptive_mask_forward [OF m x] by blast
  have eq: "mask
      = [[[[Finite False 0, Finite False (1 / 4)], [Finite False (1 / 4), Finite False (1 / 2)]]]]"
    using mask res by simp
  have first: "\<exists>mask. forward demo_masker demo_batch = Inr mask \<and> batch_shaped mask 1 2 2
         \<and> mask ! 0 ! 0 ! 0 ! 0 = Finite False 0 \<and> mask ! 0 ! 0 ! 1 ! 1 = Finite False (1 / 2)"
    using mask shaped by (intro exI [of _ mask]) (simp add: eq)
  have res0: "forward zero_temperature_masker zero_temperature_batch
      = Inr [[[[NaN, Finite False 1]]]]"
    by (simp add: forward_def forward_image_def global_fc_def fc_linear_def adaptive_avg_pool_def
        masker_channels_def zero_temperature_masker_def zero_temperature_batch_def
        saturating_masker_def init_masker_def Let_def
        fsum_def fp_one_def val_def fp_round_def round32_exact high inf sigmoid_NaN)
  have m0: "masker_shaped zero_temperature_masker 1"
    by (simp add: masker_shaped_def zero_temperature_masker_def saturating_masker_def
        init_masker_def)
  have x0: "batch_shaped zero_temperature_batch 1 1 2"
    by (simp add: batch_shaped_def zero_temperature_batch_def)
  obtain mask0 where mask0: "forward zero_temperature_masker zero_temperature_batch = Inr mask0"
    and shaped0: "batch_shaped mask0 1 1 2"
    using adaptive_mask_forward [OF m0 x0] by blast
  have eq0: "mask0 = [[[[NaN, Finite False 1]]]]" using mask0 res0 by simp
  have second: "\<exists>mask. forward zero_temperature_masker zero_temperature_batch = Inr mask
         \<and> batch_shaped mask 1 1 2 \<and> mask ! 0 ! 0 ! 0 ! 0 = NaN"
    using mask0 shaped0 by (intro exI [of _ mask0]) (simp add: eq0)
  from res first res0 second show ?thesis by (intro conjI)
qed

text \<open>
  The bounds are reached: a freshly built one-channel module with the identity as its
  linear layer maps the image of the single entry -256 to the mask 0.0, and the image of
  the single entry 256 to the mask 1.0; neither lies strictly between 0 and 1. (In
  float32 \<open>exp(256)\<close> is infinite and \<open>exp(-256)\<close> is zero.)
\<close>

theorem adaptive_mask_reaches_bounds:
  "forward saturating_masker saturating_batch = Inr [[[[Finite False 0]]], [[[Finite False 1]]]]
   \<and> \<not> open_unit (Finite False 0) \<and> \<not> open_unit (Finite False 1)"
proof -
  have low: "sigmoid (Finite True 256) = Finite False 0" by (rule sigmoid_saturates_low) simp
  have high: "sigmoid (Finite False 256) = Finite False 1" by (rule sigmoid_saturates_high) simp
  have "forward saturating_masker saturating_batch
      = Inr [[[[Finite False 0]]], [[[Finite False 1]]]]"
    by (simp add: forward_def forward_image_def global_fc_def fc_linear_def adaptive_avg_pool_def
        masker_channels_def saturating_masker_def saturating_batch_def init_masker_def Let_def
        fsum_def fp_one_def val_def fp_round_def round32_exact low high)
  then show ?thesis by (simp add: open_unit_def val_def)
qed


subsection \<open>C4: six classes\<close>

text \<open>
  C4. \<open>consolidate_labels\<close> is a total function that sends every label to exactly one of
  the six classes Benign, DoS, DDoS, Botnet, Infiltration, Brute Force: the result has one
  entry per input label, each entry is the class chosen by the specification's rule table
  (case-insensitive substring rules in the order benign, ddos, dos, bot, infil, brute-force
  keywords, fallback Brute Force), a label and its lower-cased form get the same class, and
  the five labels named by the specification get the classes it names.
\<close>

theorem consolidate_labels_six_classes:
  "consolidate_labels labels = map spec_class labels
   \<and> length (consolidate_labels labels) = length labels
   \<and> set (consolidate_labels labels) \<subseteq> set six_classes
   \<and> consolidate_labels (map str_lower labels) = consolidate_labels labels
   \<and> consolidate_labels
        [''BENIGN'', ''Benign-Traffic'', ''DDOS attack-HOIC'', ''FTP-BruteForce'',
         ''Infilteration'']
      = [''Benign'', ''Benign'', ''DDoS'', ''Brute Force'', ''Infiltration'']"
proof -
  have m: "consolidate_labels ls = map consolidate_label ls" for ls
    by (simp add: consolidate_labels_def consolidate_loop_map)
  have a: "consolidate_labels labels = map spec_class labels"
    by (simp add: m consolidate_label_spec_class)
  have b: "set (consolidate_labels labels) \<subseteq> set six_classes"
    using consolidate_label_six by (auto simp: m)
  have c: "consolidate_labels (map str_lower labels) = consolidate_labels labels"
    by (simp add: m consolidate_label_def str_lower_idem)
  have d: "consolidate_labels
        [''BENIGN'', ''Benign-Traffic'', ''DDOS attack-HOIC'', ''FTP-BruteForce'',
         ''Infilteration'']
      = [''Benign'', ''Benign'', ''DDoS'', ''Brute Force'', ''Infiltration'']"
    by (simp add: m consolidate_label_def str_lower_def lower_char_def any_in_def)
  from a b c d show ?thesis by (simp add: m)
qed

text \<open>
  The rule table at work on labels that hit a later rule only because the earlier ones
  miss: a DoS label, a bot label, a web attack and a label no rule knows.
\<close>

theorem consolidate_labels_six_classes_witness:
  "consolidate_labels [''DoS attacks-Hulk'', ''Bot'', ''SQL Injection'', ''Heartbleed'']
     = [''DoS'', ''Botnet'', ''Brute Force'', ''Brute Force'']
   \<and> set (consolidate_labels [''DoS attacks-Hulk'', ''Bot'', ''SQL Injection'', ''Heartbleed''])
       \<subseteq> set six_classes"
proof -
  have "consolidate_labels [''DoS attacks-Hulk'', ''Bot'', ''SQL Injection'', ''Heartbleed'']
      = map spec_class [''DoS attacks-Hulk'', ''Bot'', ''SQL Injection'', ''Heartbleed'']"
    using consolidate_labels_six_classes
      [of "[''DoS attacks-Hulk'', ''Bot'', ''SQL Injection'', ''Heartbleed'']"] by blast
  moreover have "map spec_class [''DoS attacks-Hulk'', ''Bot'', ''SQL Injection'', ''Heartbleed'']
      = [''DoS'', ''Botnet'', ''Brute Force'', ''Brute Force'']"
    by (simp add: spec_class_def priority_rules_def str_lower_def lower_char_def
        str_in_sublist [symmetric])
  ultimately show ?thesis by (simp add: six_classes_def)
qed

subsection \<open>C5: focal loss without focusing\<close>

text \<open>
  C5. With \<open>alpha = 1\<close> and \<open>gamma = 0\<close>, \<open>BalancedFocalLoss.forward\<close> returns, for every
  logits tensor and every target vector, exactly the mean of the per-sample
  cross-entropies, and raises exactly when \<open>cross_entropy\<close> raises. For a positive
  \<open>gamma\<close> the loss is the batch mean of \<open>alpha * (1 - pt) ^ gamma * ce\<close> with
  \<open>pt = exp (- ce)\<close>.
\<close>

theorem focal_loss_reduces_to_cross_entropy:
  "forward_loss \<lparr>alpha = 1, gamma = 0\<rparr> inputs targets
     = (case cross_entropy inputs targets of
          Inl e \<Rightarrow> Inl e
        | Inr ce \<Rightarrow> Inr (if ce = [] then None else Some (sum_list ce / real (length ce))))
   \<and> (0 < g \<longrightarrow>
        forward_loss \<lparr>alpha = a, gamma = g\<rparr> inputs targets
          = (case cross_entropy inputs targets of
               Inl e \<Rightarrow> Inl e
             | Inr ce \<Rightarrow>
                 Inr (if ce = [] then None
                      else Some (sum_list (map (\<lambda>c. a * (1 - exp (- c)) powr g * c) ce)
                                 / real (length ce)))))"
proof (cases "cross_entropy inputs targets")
  case (Inl e)
  then show ?thesis by (simp add: forward_loss_def)
next
  case (Inr ce)
  have len: "length targets = length ce" using Inr by (rule length_cross_entropy)
  have one: "forward_loss \<lparr>alpha = 1, gamma = 0\<rparr> inputs targets
      = Inr (tensor_mean (map Some ce))"
    by (simp add: forward_loss_def Inr Let_def zip3_map [OF len] torch_pow_def)
  have gen: "forward_loss \<lparr>alpha = a, gamma = g\<rparr> inputs targets
      = Inr (tensor_mean (map Some (map (\<lambda>c. a * (1 - exp (- c)) powr g * c) ce)))" if "0 < g"
  proof -
    have "map (\<lambda>c. map_option (\<lambda>w. a * w * c) (torch_pow (1 - exp (- c)) g)) ce
        = map (\<lambda>c. Some (a * (1 - exp (- c)) powr g * c)) ce"
      using cross_entropy_nonneg [OF Inr] that by (intro map_cong) (simp_all add: torch_pow_focal)
    then have "tensor_mean (map (\<lambda>c. map_option (\<lambda>w. a * w * c) (torch_pow (1 - exp (- c)) g)) ce)
        = tensor_mean (map Some (map (\<lambda>c. a * (1 - exp (- c)) powr g * c) ce))"
      by (simp only: map_map comp_def)
    then show ?thesis
      by (simp add: forward_loss_def Inr Let_def zip3_map [OF len])
  qed
  have one': "forward_loss \<lparr>alpha = 1, gamma = 0\<rparr> inputs targets
      = Inr (if ce = [] then None else Some (sum_list ce / real (length ce)))"
    unfolding one tensor_mean_Some by (rule refl)
  have gen': "forward_loss \<lparr>alpha = a, gamma = g\<rparr> inputs targets
      = Inr (if ce = [] then None
             else Some (sum_list (map (\<lambda>c. a * (1 - exp (- c)) powr g * c) ce)
                        / real (length ce)))" if "0 < g"
    unfolding gen [OF that] tensor_mean_Some by simp
  from one' gen' show ?thesis by (simp add: Inr)
qed

text \<open>
  Two classes with equal logits: every cross-entropy is \<open>ln 2\<close>, and so is the loss at
  \<open>alpha = 1\<close>, \<open>gamma = 0\<close>; a target outside the row raises; at \<open>gamma = 2\<close> the
  per-sample term is weighted by one half squared.
\<close>

theorem focal_loss_reduces_to_cross_entropy_witness:
  "forward_loss \<lparr>alpha = 1, gamma = 0\<rparr> [[0, 0], [0, 0]] [0, 1] = Inr (Some (ln 2))
   \<and> forward_loss \<lparr>alpha = 1, gamma = 0\<rparr> [[0, 0]] [5] = Inl IndexError
   \<and> forward_loss \<lparr>alpha = 3/4, gamma = 2\<rparr> [[0, 0]] [0]
       = Inr (Some (3/4 * (1/2) powr 2 * ln 2))"
proof -
  have ce2: "cross_entropy [[0, 0], [0, 0]] [0, 1] = Inr [ln 2, ln 2]"
    by (simp add: cross_entropy_def sample_cross_entropy_def)
  have ce1: "cross_entropy [[0, 0]] [0] = Inr [ln 2]"
    by (simp add: cross_entropy_def sample_cross_entropy_def)
  have bad: "cross_entropy [[0, 0]] [5] = Inl IndexError"
    by (simp add: cross_entropy_def)
  have half: "1 - exp (- ln (2::real)) = 1/2"
    by (simp add: exp_minus)
  have g: "(0::real) < 2" by simp
  have a: "forward_loss \<lparr>alpha = 1, gamma = 0\<rparr> [[0, 0], [0, 0]] [0, 1] = Inr (Some (ln 2))"
    using focal_loss_reduces_to_cross_entropy
      [where inputs = "[[0, 0], [0, 0]]" and targets = "[0, 1]", THEN conjunct1]
    by (simp add: ce2)
  have b: "forward_loss \<lparr>alpha = 1, gamma = 0\<rparr> [[0, 0]] [5] = Inl IndexError"
    using focal_loss_reduces_to_cross_entropy
      [where inputs = "[[0, 0]]" and targets = "[5]", THEN conjunct1]
    by (simp add: bad)
  have c: "forward_loss \<lparr>alpha = 3/4, gamma = 2\<rparr> [[0, 0]] [0]
       = Inr (Some (3/4 * (1/2) powr 2 * ln 2))"
    using focal_loss_reduces_to_cross_entropy
      [where inputs = "[[0, 0]]" and targets = "[0]" and g = 2 and a = "3/4",
        THEN conjunct2, THEN mp, OF g]
    by (simp add: ce1 half)
  from a b c show ?thesis by simp
qed

subsection \<open>C6: counting epochs without improvement\<close>

text \<open>
  C6. For a controller built with \<open>delta = 0\<close> and patience \<open>p\<close>:
  (a) along a strictly decreasing sequence of validation losses \<open>early_stop\<close> is never set;
  (b) after a first loss \<open>base\<close>, along losses that each satisfy
  \<open>- loss < best_score + delta\<close>, the counter after k of them is k, the best score stays
  \<open>- base\<close>, and \<open>early_stop\<close> holds after k of them exactly when k is at least 1 and at
  least \<open>p\<close>; so for \<open>p\<close> at least 1 and \<open>p + 1\<close> such losses, \<open>early_stop\<close> is set from
  the p-th on and not before;
  (c) a call that does not satisfy \<open>- loss < best_score + delta\<close> sets the best score to
  \<open>- loss\<close>, stores a new deep copy of the model's state and resets the counter to 0.
\<close>

theorem early_stopping_delta_zero:
  fixes ls :: "real list" and p :: int
  defines "W0 \<equiv> \<lambda>v h. \<lparr>es = init p v 0, heap = h, out = []\<rparr>"
  shows
  "(sorted_wrt (>) ls \<longrightarrow>
      (\<forall>k\<le>length ls. \<not> early_stop (es (feed (take k ls) m (W0 v h)))))
   \<and> ((\<forall>l\<in>set ls. - l < - base + 0) \<longrightarrow>
      (\<forall>k\<le>length ls.
         counter (es (feed (base # take k ls) m (W0 v h))) = int k
         \<and> best_score (es (feed (base # take k ls) m (W0 v h))) = Some (- base)
         \<and> (early_stop (es (feed (base # take k ls) m (W0 v h))) \<longleftrightarrow> 1 \<le> k \<and> p \<le> int k)))
   \<and> (1 \<le> p \<and> length ls = nat p + 1 \<and> (\<forall>l\<in>set ls. - l < - base + 0) \<longrightarrow>
      (\<forall>k\<le>length ls.
         early_stop (es (feed (base # take k ls) m (W0 v h))) \<longleftrightarrow> nat p \<le> k))
   \<and> (delta (es w) = 0 \<and> best_score (es w) = Some b \<and> \<not> - l < b + delta (es w) \<longrightarrow>
      best_score (es (call l m w)) = Some (- l)
      \<and> best_model_state_dict (es (call l m w)) = Some (fst (deepcopy m (heap w)))
      \<and> heap (call l m w) = snd (deepcopy m (heap w))
      \<and> counter (es (call l m w)) = 0)"
proof -
  have a: "\<not> early_stop (es (feed (take k ls) m (W0 v h)))" if "sorted_wrt (>) ls" for k
  proof (rule feed_decreasing)
    show "sorted_wrt (>) (take k ls)" using that by (rule sorted_wrt_take)
  qed (simp_all add: W0_def init_def)
  have first: "es (call base m (W0 v h)) = (init p v 0)\<lparr>best_score := Some (- base),
      best_model_state_dict := Some (fst (deepcopy m h)), val_loss_min := Some base\<rparr>"
    by (simp add: call_first W0_def init_def)
  have b: "counter (es (feed (base # take k ls) m (W0 v h))) = int k
         \<and> best_score (es (feed (base # take k ls) m (W0 v h))) = Some (- base)
         \<and> (early_stop (es (feed (base # take k ls) m (W0 v h))) \<longleftrightarrow> 1 \<le> k \<and> p \<le> int k)"
    if worse: "\<forall>l\<in>set ls. - l < - base + 0" and k: "k \<le> length ls" for k
  proof -
    let ?w = "call base m (W0 v h)"
    have "best_score (es ?w) = Some (- base)" by (simp add: first)
    moreover have "\<forall>l\<in>set (take k ls). - l < - base + delta (es ?w)"
      using worse by (auto simp: first init_def dest: in_set_takeD)
    ultimately have "counter (es (feed (take k ls) m ?w)) = counter (es ?w) + int (length (take k ls))
       \<and> best_score (es (feed (take k ls) m ?w)) = Some (- base)
       \<and> best_model_state_dict (es (feed (take k ls) m ?w)) = best_model_state_dict (es ?w)
       \<and> heap (feed (take k ls) m ?w) = heap ?w
       \<and> (early_stop (es (feed (take k ls) m ?w)) \<longleftrightarrow>
            early_stop (es ?w) \<or> (take k ls \<noteq> [] \<and> patience (es ?w) \<le> counter (es ?w) + int (length (take k ls))))"
      by (rule feed_worse)
    then show ?thesis using k by (auto simp: first init_def)
  qed
  have c: "early_stop (es (feed (base # take k ls) m (W0 v h))) \<longleftrightarrow> nat p \<le> k"
    if "1 \<le> p" and "\<forall>l\<in>set ls. - l < - base + 0" and "k \<le> length ls" for k
    using b [OF that(2,3)] that(1) by auto
  have d: "best_score (es (call l m w)) = Some (- l)
      \<and> best_model_state_dict (es (call l m w)) = Some (fst (deepcopy m (heap w)))
      \<and> heap (call l m w) = snd (deepcopy m (heap w))
      \<and> counter (es (call l m w)) = 0"
    if "best_score (es w) = Some b" and "\<not> - l < b + delta (es w)"
    using that by (simp add: call_better heap_call_better)
  from a b c d show ?thesis by blast
qed

text \<open>
  Patience 2: the losses 3, 2, 1 never stop; after the loss 1, the losses 5, 6, 7 stop at
  the second; a loss of one half after 1, 5 resets the counter.
\<close>

theorem early_stopping_delta_zero_witness:
  "\<not> early_stop (es (feed [3, 2, 1] demo_model demo_world))
   \<and> \<not> early_stop (es (feed [1, 5] demo_model demo_world))
   \<and> early_stop (es (feed [1, 5, 6] demo_model demo_world))
   \<and> early_stop (es (feed [1, 5, 6, 7] demo_model demo_world))
   \<and> counter (es (feed [1, 5, 6, 7] demo_model demo_world)) = 3
   \<and> counter (es (call (1/2) demo_model (feed [1, 5] demo_model demo_world))) = 0"
proof -
  have dec: "sorted_wrt (>) [3, 2, 1 :: real]" by simp
  have a: "\<not> early_stop (es (feed [3, 2, 1] demo_model demo_world))"
    using early_stopping_delta_zero
      [where ls = "[3, 2, 1]" and p = 2 and m = demo_model and v = False and h = demo_store,
        THEN conjunct1, THEN mp, OF dec, THEN spec, THEN mp, of 3]
    by (simp add: demo_world_def)
  have worse: "\<forall>l\<in>set [5, 6, 7 :: real]. - l < - 1 + 0" by simp
  note b = early_stopping_delta_zero
      [where ls = "[5, 6, 7]" and base = 1 and p = 2 and m = demo_model and v = False
         and h = demo_store,
        THEN conjunct2, THEN conjunct1, THEN mp, OF worse, THEN spec, THEN mp]
  have b1: "\<not> early_stop (es (feed [1, 5] demo_model demo_world))"
    using b [of 1] by (simp add: demo_world_def)
  have b2: "early_stop (es (feed [1, 5, 6] demo_model demo_world))"
    using b [of 2] by (simp add: demo_world_def)
  have b3: "early_stop (es (feed [1, 5, 6, 7] demo_model demo_world))
      \<and> counter (es (feed [1, 5, 6, 7] demo_model demo_world)) = 3"
    using b [of 3] by (simp add: demo_world_def)
  have pre: "delta (es (feed [1, 5] demo_model demo_world)) = 0
      \<and> best_score (es (feed [1, 5] demo_model demo_world)) = Some (- 1)
      \<and> \<not> - (1/2) < - 1 + delta (es (feed [1, 5] demo_model demo_world))"
    by (simp add: demo_defs)
  have d: "counter (es (call (1/2) demo_model (feed [1, 5] demo_model demo_world))) = 0"
    using early_stopping_delta_zero
      [where w = "feed [1, 5] demo_model demo_world" and b = "- 1" and l = "1/2"
         and m = demo_model,
        THEN conjunct2, THEN conjunct2, THEN conjunct2, THEN mp, OF pre]
    by simp
  from a b1 b2 b3 d show ?thesis by simp
qed

subsection \<open>C7: the correlation filter at 0.999 and at 1.0\<close>





subsection \<open>C8: the first observation and its snapshot\<close>

text \<open>
  C8. On the first observation (no best score yet) the negated loss becomes the best
  score and a snapshot is stored. The snapshot has the model's parameter names, lives at
  addresses apart from the model's, and reads the values the model had at the call; the
  call itself leaves the model's values alone. After any sequence of in-place writes to
  the model's tensors, the snapshot still reads the values of the call.
\<close>

theorem first_observation_snapshot_independent:
  assumes "best_score (es w) = None"
    and "\<forall>a\<in>snd ` set model. a < fresh (heap w)"
    and "fst ` set ws \<subseteq> snd ` set model"
  shows "best_score (es (call l model w)) = Some (- l)
     \<and> (\<exists>snapshot. best_model_state_dict (es (call l model w)) = Some snapshot
          \<and> map fst snapshot = map fst model
          \<and> snd ` set snapshot \<inter> snd ` set model = {}
          \<and> read_state_dict (heap (call l model w)) snapshot = read_state_dict (heap w) model
          \<and> read_state_dict (heap (call l model w)) model = read_state_dict (heap w) model
          \<and> read_state_dict (mutate ws (heap (call l model w))) snapshot
              = read_state_dict (heap w) model)"
proof -
  let ?snap = "fst (deepcopy model (heap w))"
  let ?h = "snd (deepcopy model (heap w))"
  have e: "es (call l model w) = (es w)\<lparr>best_score := Some (- l),
      best_model_state_dict := Some ?snap, val_loss_min := Some l\<rparr>"
    using assms(1) by (rule call_first)
  have h: "heap (call l model w) = ?h"
    using assms(1) by (rule heap_call_first)
  have addrs: "snd ` set ?snap = {fresh (heap w) ..< fresh (heap w) + length model}"
    using deepcopy_addrs [of model "heap w"] by (metis set_map set_upt)
  have disj: "snd ` set ?snap \<inter> snd ` set model = {}"
    using assms(2) by (auto simp: addrs)
  have r1: "read_state_dict ?h ?snap = read_state_dict (heap w) model"
    using assms(2) by (rule deepcopy_read)
  have r2: "read_state_dict ?h model = read_state_dict (heap w) model"
    using assms(2) by (auto simp: read_state_dict_def deepcopy_old_cells)
  have "fst ` set ws \<inter> snd ` set ?snap = {}" using disj assms(3) by blast
  then have r3: "read_state_dict (mutate ws ?h) ?snap = read_state_dict ?h ?snap"
    by (rule mutate_read)
  show ?thesis using e h disj r1 r2 r3 by (simp add: deepcopy_names)
qed

text \<open>
  After the first call both tensors of the model are overwritten; the snapshot still
  reads 1, 2 and 3, the model reads the new values.
\<close>

theorem first_observation_snapshot_independent_witness:
  "best_score (es (call 1 demo_model demo_world)) = Some (- 1)
   \<and> (\<exists>snapshot. best_model_state_dict (es (call 1 demo_model demo_world)) = Some snapshot
        \<and> read_state_dict (mutate [(0, [9, 9]), (1, [])] (heap (call 1 demo_model demo_world)))
             snapshot
           = [(''weight'', Some [1, 2]), (''bias'', Some [3])])
   \<and> read_state_dict (mutate [(0, [9, 9]), (1, [])] (heap (call 1 demo_model demo_world)))
        demo_model
      = [(''weight'', Some [9, 9]), (''bias'', Some [])]"
proof -
  have first: "best_score (es demo_world) = None" by (simp add: demo_defs)
  have alloc: "\<forall>a\<in>snd ` set demo_model. a < fresh (heap demo_world)"
    by (simp add: demo_defs)
  have ws: "fst ` set [(0, [9, 9]), (1, [] :: tensor)] \<subseteq> snd ` set demo_model"
    by (simp add: demo_defs)
  have before: "read_state_dict (heap demo_world) demo_model
      = [(''weight'', Some [1, 2]), (''bias'', Some [3])]"
    by (simp add: demo_defs read_state_dict_def)
  have live: "read_state_dict (mutate [(0, [9, 9]), (1, [])] (heap (call 1 demo_model demo_world)))
        demo_model
      = [(''weight'', Some [9, 9]), (''bias'', Some [])]"
    by (simp add: demo_defs read_state_dict_def assign_def)
  show ?thesis
    using first_observation_snapshot_independent [OF first alloc ws, of 1] before live
    by auto
qed

subsection \<open>C9: restoring the best weights\<close>

text \<open>
  C9. With no snapshot, \<open>load_best_weights\<close> raises nothing and leaves the controller and
  the store, hence the weights of the model passed, as they were. With a snapshot of the
  model (the same names, sizes that agree, addresses apart from the model's, as
  \<open>save_checkpoint\<close> makes it) it raises nothing, leaves the controller as it was, makes
  the model read exactly what the snapshot reads, leaves the snapshot intact, and a
  second call changes nothing more.
\<close>

theorem load_best_weights_restores:
  "(best_model_state_dict (es w) = None \<longrightarrow>
      (\<exists>w'. load_best_weights model w = Inr w' \<and> es w' = es w \<and> heap w' = heap w))
   \<and> (best_model_state_dict (es w) = Some snapshot
       \<and> map fst snapshot = map fst model
       \<and> distinct (map fst model) \<and> distinct (map snd model)
       \<and> snd ` set snapshot \<inter> snd ` set model = {}
       \<and> size_mismatch model snapshot (heap w) = [] \<longrightarrow>
      (\<exists>w'. load_best_weights model w = Inr w' \<and> es w' = es w
          \<and> read_state_dict (heap w') model = read_state_dict (heap w) snapshot
          \<and> read_state_dict (heap w') snapshot = read_state_dict (heap w) snapshot
          \<and> (\<exists>w''. load_best_weights model w' = Inr w''
                \<and> heap w'' = heap w' \<and> es w'' = es w')))"
proof (intro conjI impI)
  assume "best_model_state_dict (es w) = None"
  then show "\<exists>w'. load_best_weights model w = Inr w' \<and> es w' = es w \<and> heap w' = heap w"
    by (simp add: load_best_weights_def)
next
  assume a: "best_model_state_dict (es w) = Some snapshot
       \<and> map fst snapshot = map fst model
       \<and> distinct (map fst model) \<and> distinct (map snd model)
       \<and> snd ` set snapshot \<inter> snd ` set model = {}
       \<and> size_mismatch model snapshot (heap w) = []"
  let ?h = "copy_params model snapshot (heap w)"
  let ?w' = "w\<lparr>heap := ?h, out := trace_func (verbose (es w)) LoadedMsg (out w)\<rparr>"
  let ?w'' = "?w'\<lparr>heap := ?h, out := trace_func (verbose (es w)) LoadedMsg (out ?w')\<rparr>"
  have l1: "load_best_weights model w = Inr ?w'"
    using a by (simp add: load_best_weights_def load_state_dict_ok)
  have "load_state_dict model snapshot ?h = Inr (copy_params model snapshot ?h)"
    using a by (intro load_state_dict_ok) (simp_all add: copy_params_twice)
  then have l2: "load_best_weights model ?w' = Inr ?w''"
    using a by (simp add: load_best_weights_def copy_params_twice)
  have r1: "read_state_dict ?h model = read_state_dict (heap w) snapshot"
    using a by (intro copy_params_read_model) simp_all
  have r2: "read_state_dict ?h snapshot = read_state_dict (heap w) snapshot"
    using a by (intro copy_params_read_snapshot) simp_all
  show "\<exists>w'. load_best_weights model w = Inr w' \<and> es w' = es w
          \<and> read_state_dict (heap w') model = read_state_dict (heap w) snapshot
          \<and> read_state_dict (heap w') snapshot = read_state_dict (heap w) snapshot
          \<and> (\<exists>w''. load_best_weights model w' = Inr w''
                \<and> heap w'' = heap w' \<and> es w'' = es w')"
    using l1 l2 r1 r2 by simp
qed

text \<open>
  Before any observation the call returns the world it was given. After one observation
  and a training step that moved the weight to 9, 9, the call brings 1, 2 back, and
  calling again keeps the store.
\<close>

theorem load_best_weights_restores_witness:
  "(\<exists>w'. load_best_weights demo_model demo_world = Inr w'
        \<and> es w' = es demo_world \<and> heap w' = heap demo_world)
   \<and> read_state_dict (heap demo_trained) demo_model
        = [(''weight'', Some [9, 9]), (''bias'', Some [3])]
   \<and> (\<exists>w'. load_best_weights demo_model demo_trained = Inr w'
        \<and> read_state_dict (heap w') demo_model
             = [(''weight'', Some [1, 2]), (''bias'', Some [3])]
        \<and> (\<exists>w''. load_best_weights demo_model w' = Inr w'' \<and> heap w'' = heap w'))"
proof -
  have none: "best_model_state_dict (es demo_world) = None" by (simp add: demo_defs)
  have a: "\<exists>w'. load_best_weights demo_model demo_world = Inr w'
        \<and> es w' = es demo_world \<and> heap w' = heap demo_world"
    using load_best_weights_restores [where w = demo_world and model = demo_model, THEN conjunct1] none by blast
  have live: "read_state_dict (heap demo_trained) demo_model
        = [(''weight'', Some [9, 9]), (''bias'', Some [3])]"
    by (simp add: demo_trained_def demo_defs read_state_dict_def assign_def)
  have some: "best_model_state_dict (es demo_trained) = Some [(''weight'', 2), (''bias'', 3)]
       \<and> map fst [(''weight'', 2 :: addr), (''bias'', 3)] = map fst demo_model
       \<and> distinct (map fst demo_model) \<and> distinct (map snd demo_model)
       \<and> snd ` set [(''weight'', 2 :: addr), (''bias'', 3)] \<inter> snd ` set demo_model = {}
       \<and> size_mismatch demo_model [(''weight'', 2), (''bias'', 3)] (heap demo_trained) = []"
    by (simp add: demo_trained_def demo_defs size_mismatch_def assign_def)
  have snap: "read_state_dict (heap demo_trained) [(''weight'', 2), (''bias'', 3)]
        = [(''weight'', Some [1, 2]), (''bias'', Some [3])]"
    by (simp add: demo_trained_def demo_defs read_state_dict_def assign_def)
  show ?thesis
    using load_best_weights_restores
      [where w = demo_trained and snapshot = "[(''weight'', 2), (''bias'', 3)]"
         and model = demo_model, THEN conjunct2, THEN mp,
        OF some]
      a live snap
    by auto
qed

subsection \<open>C10: stopped stays stopped\<close>

text \<open>
  C10. Once \<open>early_stop\<close> is True it stays True after any further call and after any
  further sequence of calls. A call that improves on the best score
  (\<open>best_score + delta \<le> - loss\<close>) still updates the best score and stores a new
  snapshot, and \<open>early_stop\<close> is still True afterwards.
\<close>

theorem early_stop_absorbing:
  "early_stop (es w) \<Longrightarrow>
     early_stop (es (call l m w))
     \<and> early_stop (es (feed ls m w))
     \<and> (best_score (es w) = Some b \<and> b + delta (es w) \<le> - l \<longrightarrow>
          best_score (es (call l m w)) = Some (- l)
          \<and> best_model_state_dict (es (call l m w)) = Some (fst (deepcopy m (heap w)))
          \<and> heap (call l m w) = snd (deepcopy m (heap w))
          \<and> early_stop (es (call l m w)))"
proof -
  assume stopped: "early_stop (es w)"
  have "best_score (es (call l m w)) = Some (- l)
          \<and> best_model_state_dict (es (call l m w)) = Some (fst (deepcopy m (heap w)))
          \<and> heap (call l m w) = snd (deepcopy m (heap w))"
    if "best_score (es w) = Some b" and "b + delta (es w) \<le> - l"
    using that by (simp add: call_better heap_call_better)
  with stopped show ?thesis
    by (simp add: call_early_stop_mono feed_early_stop_mono)
qed

text \<open>
  Patience 2, losses 1, 5, 6: stopped. A better loss of one half becomes the best score
  and the controller is still stopped, as it is after three more losses of 0.
\<close>

theorem early_stop_absorbing_witness:
  "early_stop (es (feed [1, 5, 6] demo_model demo_world))
   \<and> early_stop (es (call (1/2) demo_model (feed [1, 5, 6] demo_model demo_world)))
   \<and> best_score (es (call (1/2) demo_model (feed [1, 5, 6] demo_model demo_world)))
       = Some (- (1/2))
   \<and> early_stop (es (feed [0, 0, 0] demo_model (feed [1, 5, 6] demo_model demo_world)))"
proof -
  have stopped: "early_stop (es (feed [1, 5, 6] demo_model demo_world))"
    by (simp add: demo_defs)
  have better: "best_score (es (feed [1, 5, 6] demo_model demo_world)) = Some (- 1)
      \<and> - 1 + delta (es (feed [1, 5, 6] demo_model demo_world)) \<le> - (1/2)"
    by (simp add: demo_defs)
  show ?thesis
    using early_stop_absorbing [OF stopped, of "1/2" demo_model "[0, 0, 0]" "- 1"] stopped better
    by simp
qed

end
